theory Spec2Isabelle
  imports
    Complex_Main
    "HOL-Library.AList"
    "HOL-Library.Char_ord"
    "HOL-Library.List_Lexorder"
begin

section \<open>Tag co-occurrence graph and rising-edge analysis\<close>

text \<open>
  This theory embeds \<^verbatim>\<open>src/graph/builder.py\<close> (\<^verbatim>\<open>TagCooccurrenceGraph.build_graph\<close>) and
  \<^verbatim>\<open>src/graph/analytics.py\<close> (\<^verbatim>\<open>GraphAnalytics.find_rising_edges\<close>,
  \<^verbatim>\<open>GraphAnalytics._fallback_top_edges\<close>).

  Conventions of the embedding:
  \<^item> A tag is a \<open>string\<close>; a Python \<^verbatim>\<open>str\<close> is taken in its UTF-8 encoding, whose bytewise
    lexicographic order is the code-point order that \<^verbatim>\<open>sorted\<close> uses.
  \<^item> A record of the data file is an \<open>item\<close> with the two keys the graph code reads. Its
    \<open>time\<close> is the outcome of the parsing loop of \<^verbatim>\<open>find_rising_edges\<close>: \<open>None\<close> when the key is
    missing, empty or rejected by \<^verbatim>\<open>datetime.fromisoformat\<close> (the loop skips the record), and
    \<open>Some t\<close> for the parsed \<^verbatim>\<open>datetime\<close> otherwise.
  \<^item> \<^verbatim>\<open>self.items\<close> is passed as the list \<open>items\<close>, as it stands after \<^verbatim>\<open>load_data\<close>.
  \<^item> A \<^verbatim>\<open>dict\<close> or \<^verbatim>\<open>Counter\<close> is an association list in insertion order.
  \<^item> A Python \<^verbatim>\<open>float\<close> is a rational number. The only floats are the growth rates, each
    the quotient of two integers: the source rounds it to the nearest double, which keeps
    the sign and the order, and the model keeps it exact.
  \<^item> The string \<^verbatim>\<open>anchor_now.strftime(...)\<close> in the statistics is the value \<open>TimeV anchor_now\<close>.
  \<^item> An exception that the source lets escape is a result \<open>Inl e\<close>.
  \<^item> Printing is left out.
\<close>

subsection \<open>Datetimes\<close>

text \<open>
  A \<^verbatim>\<open>datetime\<close> is its wall-clock reading in microseconds since \<^verbatim>\<open>datetime.min\<close>, and for
  an aware one also its UTC offset in microseconds. Ordering a naive against an aware
  datetime raises \<^verbatim>\<open>TypeError\<close>; arithmetic that leaves the supported range raises
  \<^verbatim>\<open>OverflowError\<close>; \<^verbatim>\<open>max\<close> of no element raises \<^verbatim>\<open>ValueError\<close>.
\<close>

datatype pytime = Naive int | Aware int int

datatype error = TypeError | OverflowError | ValueError

fun is_aware :: "pytime \<Rightarrow> bool" where
  "is_aware (Naive u) = False"
| "is_aware (Aware u off) = True"

fun utc_us :: "pytime \<Rightarrow> int" where
  "utc_us (Naive u) = u"
| "utc_us (Aware u off) = u - off"

fun local_us :: "pytime \<Rightarrow> int" where
  "local_us (Naive u) = u"
| "local_us (Aware u off) = u"

definition time_gt :: "pytime \<Rightarrow> pytime \<Rightarrow> error + bool" where
  "time_gt a b = (if is_aware a = is_aware b then Inr (utc_us b < utc_us a) else Inl TypeError)"

text \<open>
  \<^verbatim>\<open>time_obj >= threshold\<close> inside the window loop. The loop is reached only after
  \<^verbatim>\<open>max\<close> has compared all timestamps with each other, so both sides are of one kind there
  (lemma \<open>window_bounds_kind\<close> below) and the comparison cannot raise.
\<close>

definition time_ge :: "pytime \<Rightarrow> pytime \<Rightarrow> bool" where
  "time_ge a b = (utc_us b \<le> utc_us a)"

text \<open>\<^verbatim>\<open>max(...)\<close> keeps the first maximal element and compares each later one with it.\<close>

fun max_from :: "pytime \<Rightarrow> pytime list \<Rightarrow> error + pytime" where
  "max_from m [] = Inr m"
| "max_from m (t # ts) =
     (case time_gt t m of
        Inl e \<Rightarrow> Inl e
      | Inr b \<Rightarrow> max_from (if b then t else m) ts)"

definition max_us :: int where
  "max_us = 3652059 * 86400000000 - 1"

definition us_per_day :: int where
  "us_per_day = 86400000000"

text \<open>\<^verbatim>\<open>t - timedelta(days=d)\<close>: the timedelta itself is limited to 999999999 days.\<close>

definition minus_days :: "pytime \<Rightarrow> int \<Rightarrow> error + pytime" where
  "minus_days t d =
     (if d < - 999999999 \<or> 999999999 < d then Inl OverflowError
      else let u = local_us t - d * us_per_day in
        if u < 0 \<or> max_us < u then Inl OverflowError
        else Inr (case t of Naive _ \<Rightarrow> Naive u | Aware _ off \<Rightarrow> Aware u off))"

subsection \<open>Records, counters and pairs\<close>

type_synonym tag = string

type_synonym edge = "tag \<times> tag"

record item =
  time :: "pytime option"
  tags :: "tag list"

type_synonym 'k counter = "('k \<times> nat) list"

definition counter_get :: "'k counter \<Rightarrow> 'k \<Rightarrow> nat" where
  "counter_get c k = (case map_of c k of None \<Rightarrow> 0 | Some n \<Rightarrow> n)"

text \<open>\<^verbatim>\<open>c[k] += 1\<close>: an existing key keeps its position, a new key goes to the end.\<close>

definition counter_inc :: "'k \<Rightarrow> 'k counter \<Rightarrow> 'k counter" where
  "counter_inc k c = AList.update k (counter_get c k + 1) c"

text \<open>\<^verbatim>\<open>itertools.combinations(xs, 2)\<close>: all pairs of positions \<open>i < j\<close>, in that order.\<close>

fun combinations2 :: "'a list \<Rightarrow> ('a \<times> 'a) list" where
  "combinations2 [] = []"
| "combinations2 (x # xs) = map (Pair x) xs @ combinations2 xs"

text \<open>\<^verbatim>\<open>list(combinations(sorted(tags), 2))\<close>, written out at each of its three uses in the source.\<close>

definition tag_pairs :: "tag list \<Rightarrow> edge list" where
  "tag_pairs ts = combinations2 (sort ts)"

subsection \<open>The graph builder\<close>

text \<open>
  A \<^verbatim>\<open>networkx.Graph\<close>: the node dictionary maps a node to its \<^verbatim>\<open>weight\<close> attribute (absent
  for a node that only \<^verbatim>\<open>add_edge\<close> created), the edge dictionary maps a pair to its
  \<^verbatim>\<open>weight\<close>. The graph is undirected: an edge stored under \<open>(u, v)\<close> is also the edge
  \<open>(v, u)\<close>, and \<^verbatim>\<open>add_edge\<close> overwrites it instead of adding a second one.
\<close>

record graph =
  nodes :: "(tag \<times> nat option) list"
  edges :: "(edge \<times> nat) list"

definition empty_graph :: graph where
  "empty_graph = \<lparr>nodes = [], edges = []\<rparr>"

definition add_node :: "tag \<times> nat \<Rightarrow> graph \<Rightarrow> graph" where
  "add_node p g = g\<lparr>nodes := AList.update (fst p) (Some (snd p)) (nodes g)\<rparr>"

definition touch_node :: "tag \<Rightarrow> (tag \<times> nat option) list \<Rightarrow> (tag \<times> nat option) list" where
  "touch_node u ns = (if u \<in> fst ` set ns then ns else ns @ [(u, None)])"

definition add_edge :: "edge \<times> nat \<Rightarrow> graph \<Rightarrow> graph" where
  "add_edge p g =
     (let u = fst (fst p); v = snd (fst p); w = snd p; es = edges g in
      \<lparr>nodes = touch_node v (touch_node u (nodes g)),
       edges = (if (u, v) \<notin> fst ` set es \<and> (v, u) \<in> fst ` set es
                then AList.update (v, u) w es
                else AList.update (u, v) w es)\<rparr>)"

text \<open>What it means for the graph to be simple, on this representation.\<close>

definition no_parallel_edges :: "graph \<Rightarrow> bool" where
  "no_parallel_edges g =
     (distinct (map fst (edges g)) \<and>
      (\<forall>k\<in>set (map fst (edges g)). fst k \<noteq> snd k \<longrightarrow> (snd k, fst k) \<notin> set (map fst (edges g))))"

definition no_self_loops :: "graph \<Rightarrow> bool" where
  "no_self_loops g = (\<forall>k\<in>set (map fst (edges g)). fst k \<noteq> snd k)"

text \<open>One pass of the loop over \<^verbatim>\<open>self.items\<close> in \<^verbatim>\<open>build_graph\<close>.\<close>

definition count_item :: "item \<Rightarrow> edge counter \<times> tag counter \<Rightarrow> edge counter \<times> tag counter" where
  "count_item it acc =
     (if length (tags it) < 2 then acc
      else (fold counter_inc (tag_pairs (tags it)) (fst acc),
            fold counter_inc (tags it) (snd acc)))"

definition edge_weights :: "item list \<Rightarrow> edge counter" where
  "edge_weights items = fst (fold count_item items ([], []))"

definition node_occurrences :: "item list \<Rightarrow> tag counter" where
  "node_occurrences items = snd (fold count_item items ([], []))"

text \<open>
  \<^verbatim>\<open>build_graph\<close> on a new builder, whose graph is empty: the nodes are added in the
  order of the node counter, then the edges in the order of the edge counter.
\<close>

definition build_graph :: "item list \<Rightarrow> graph" where
  "build_graph items =
     fold add_edge (edge_weights items) (fold add_node (node_occurrences items) empty_graph)"

subsection \<open>The trend analysis\<close>

datatype pyval = IntV int | FloatV rat | StrV string | TimeV pytime

type_synonym pydict = "(string \<times> pyval) list"

type_synonym entry = "tag \<times> tag \<times> rat \<times> pydict"

text \<open>
  \<^verbatim>\<open>Counter.most_common(n)\<close> is \<^verbatim>\<open>sorted(items, key=count, reverse=True)[:n]\<close> for \<open>n > 0\<close>
  and empty otherwise; the sort is stable, so equal counts stay in insertion order.
\<close>

definition most_common :: "int \<Rightarrow> 'k counter \<Rightarrow> ('k \<times> nat) list" where
  "most_common n c = take (nat n) (sort_key (\<lambda>p. - int (snd p)) c)"

text \<open>The slice \<^verbatim>\<open>xs[:n]\<close>; a negative \<open>n\<close> counts from the end.\<close>

definition slice_to :: "int \<Rightarrow> 'a list \<Rightarrow> 'a list" where
  "slice_to n xs = (if 0 \<le> n then take (nat n) xs else take (length xs - nat (- n)) xs)"

definition fallback_entry :: "edge \<times> nat \<Rightarrow> entry" where
  "fallback_entry p =
     (fst (fst p), snd (fst p), 0,
      [(''total_count'', IntV (int (snd p))),
       (''fallback_reason'', StrV ''insufficient_window_samples'')])"

definition global_edges :: "item list \<Rightarrow> edge counter" where
  "global_edges items =
     fold (\<lambda>it c. if 2 \<le> length (tags it) then fold counter_inc (tag_pairs (tags it)) c else c)
       items []"

text \<open>
  How often the pair-counting loops of the source increment the counter of the pair \<open>e\<close>
  over the records \<open>its\<close>: the co-occurrence frequency of \<open>e\<close> in these records.
\<close>

definition pair_count :: "item list \<Rightarrow> edge \<Rightarrow> nat" where
  "pair_count its e = sum_list (map (\<lambda>it. count_list (tag_pairs (tags it)) e) its)"

text \<open>
  The same weight read off the tag lists alone: a record gives the pair \<open>(a, b)\<close> with
  \<open>a < b\<close> once for every occurrence of \<open>a\<close> and every occurrence of \<open>b\<close> in its list, and
  the pair \<open>(a, a)\<close> once for every two occurrences of \<open>a\<close>.
\<close>

definition pair_weight :: "item list \<Rightarrow> edge \<Rightarrow> nat" where
  "pair_weight its e =
     sum_list (map (\<lambda>it.
        if fst e < snd e then count_list (tags it) (fst e) * count_list (tags it) (snd e)
        else if fst e = snd e then count_list (tags it) (fst e) choose 2
        else 0) its)"

definition default_stats :: "item list \<Rightarrow> pydict" where
  "default_stats items =
     [(''anchor_now'', StrV ''N/A''),
      (''recent_count'', IntV 0),
      (''historical_count'', IntV 0),
      (''total_count'', IntV (int (length items))),
      (''mode'', StrV ''fallback'')]"

definition fallback_top_edges ::
  "item list \<Rightarrow> int \<Rightarrow> edge counter option \<Rightarrow> pydict option \<Rightarrow> entry list \<times> pydict" where
  "fallback_top_edges items top_n all_edges window_stats =
     (let all_edges' = (case all_edges of None \<Rightarrow> global_edges items | Some c \<Rightarrow> c);
          top_edges = map fallback_entry (most_common top_n all_edges');
          window_stats' = (case window_stats of None \<Rightarrow> default_stats items | Some s \<Rightarrow> s)
      in (top_edges, window_stats'))"

text \<open>The state of the window loop of \<^verbatim>\<open>find_rising_edges\<close>.\<close>

record windows =
  recent_edges :: "edge counter"
  historical_edges :: "edge counter"
  recent_items :: "item list"
  historical_items :: "item list"
  all_edges :: "edge counter"

definition empty_windows :: windows where
  "empty_windows =
     \<lparr>recent_edges = [], historical_edges = [], recent_items = [], historical_items = [],
      all_edges = []\<rparr>"

definition window_step :: "pytime \<Rightarrow> pytime \<Rightarrow> item \<times> pytime \<Rightarrow> windows \<Rightarrow> windows" where
  "window_step recent_threshold historical_threshold p w =
     (let it = fst p; time_obj = snd p in
      if length (tags it) < 2 then w
      else let ps = tag_pairs (tags it);
               w1 = w\<lparr>all_edges := fold counter_inc ps (all_edges w)\<rparr>
        in if time_ge time_obj recent_threshold
           then w1\<lparr>recent_edges := fold counter_inc ps (recent_edges w1),
                   recent_items := recent_items w1 @ [it]\<rparr>
           else if time_ge time_obj historical_threshold
           then w1\<lparr>historical_edges := fold counter_inc ps (historical_edges w1),
                   historical_items := historical_items w1 @ [it]\<rparr>
           else w1)"

text \<open>The guards of the \<^verbatim>\<open>if\<close> and the \<^verbatim>\<open>elif\<close> of the window loop, as predicates.\<close>

definition in_recent :: "pytime \<Rightarrow> item \<times> pytime \<Rightarrow> bool" where
  "in_recent recent_threshold p = time_ge (snd p) recent_threshold"

definition in_historical :: "pytime \<Rightarrow> pytime \<Rightarrow> item \<times> pytime \<Rightarrow> bool" where
  "in_historical recent_threshold historical_threshold p =
     (\<not> time_ge (snd p) recent_threshold \<and> time_ge (snd p) historical_threshold)"

definition scan_windows :: "pytime \<Rightarrow> pytime \<Rightarrow> (item \<times> pytime) list \<Rightarrow> windows" where
  "scan_windows recent_threshold historical_threshold iwt =
     fold (window_step recent_threshold historical_threshold) iwt empty_windows"

definition items_with_time :: "item list \<Rightarrow> (item \<times> pytime) list" where
  "items_with_time items =
     concat (map (\<lambda>it. case time it of None \<Rightarrow> [] | Some t \<Rightarrow> [(it, t)]) items)"

text \<open>
  The anchor \<^verbatim>\<open>max(t for _, t in items_with_time)\<close> and the two thresholds
  \<^verbatim>\<open>anchor_now - timedelta(days=...)\<close>, with the exceptions they can raise.
\<close>

definition window_bounds :: "pytime list \<Rightarrow> int \<Rightarrow> int \<Rightarrow> error + pytime \<times> pytime \<times> pytime" where
  "window_bounds ts recent_days historical_days =
     (case ts of
        [] \<Rightarrow> Inl ValueError
      | t0 # rest \<Rightarrow>
          (case max_from t0 rest of
             Inl e \<Rightarrow> Inl e
           | Inr anchor_now \<Rightarrow>
               (case minus_days anchor_now recent_days of
                  Inl e \<Rightarrow> Inl e
                | Inr recent_threshold \<Rightarrow>
                    (case minus_days anchor_now (recent_days + historical_days) of
                       Inl e \<Rightarrow> Inl e
                     | Inr historical_threshold \<Rightarrow>
                         Inr (anchor_now, recent_threshold, historical_threshold)))))"

definition growth :: "nat \<Rightarrow> nat \<Rightarrow> rat" where
  "growth recent_weight historical_weight =
     (of_nat recent_weight - of_nat historical_weight) / (of_nat historical_weight + 1)"

definition rising_entry :: "windows \<Rightarrow> edge \<Rightarrow> entry list" where
  "rising_entry w e =
     (let recent_weight = counter_get (recent_edges w) e;
          historical_weight = counter_get (historical_edges w) e;
          g = growth recent_weight historical_weight
      in if 0 < g \<and> 2 \<le> recent_weight
         then [(fst e, snd e, g,
                [(''recent_count'', IntV (int recent_weight)),
                 (''historical_count'', IntV (int historical_weight)),
                 (''growth_rate'', FloatV g)])]
         else [])"

definition score :: "entry \<Rightarrow> rat" where
  "score x = fst (snd (snd x))"

definition make_stats :: "pytime \<Rightarrow> nat \<Rightarrow> windows \<Rightarrow> pydict" where
  "make_stats anchor_now n_total w =
     [(''anchor_now'', TimeV anchor_now),
      (''recent_count'', IntV (int (length (recent_items w)))),
      (''historical_count'', IntV (int (length (historical_items w)))),
      (''total_count'', IntV (int n_total)),
      (''recent_edges_count'', IntV (int (length (recent_edges w)))),
      (''historical_edges_count'', IntV (int (length (historical_edges w)))),
      (''mode'', StrV ''rising'')]"

text \<open>
  The iteration order of the Python \<^verbatim>\<open>set\<close> built from the keys of both window counters
  follows the hashes of the tag strings, which the language leaves open. It is the
  parameter \<open>set_iter\<close>: any function that lists each element of its argument once.
\<close>

definition set_iter_ok :: "(edge list \<Rightarrow> edge list) \<Rightarrow> bool" where
  "set_iter_ok set_iter = (\<forall>xs. distinct (set_iter xs) \<and> set (set_iter xs) = set xs)"

definition unsorted_rising_edges :: "(edge list \<Rightarrow> edge list) \<Rightarrow> windows \<Rightarrow> entry list" where
  "unsorted_rising_edges set_iter w =
     concat (map (rising_entry w)
       (set_iter (map fst (recent_edges w) @ map fst (historical_edges w))))"

text \<open>\<^verbatim>\<open>rising_edges.sort(key=lambda x: x[2], reverse=True)\<close>: stable, on the growth alone.\<close>

definition sorted_rising_edges :: "(edge list \<Rightarrow> edge list) \<Rightarrow> windows \<Rightarrow> entry list" where
  "sorted_rising_edges set_iter w = sort_key (\<lambda>x. - score x) (unsorted_rising_edges set_iter w)"

definition analyse ::
  "(edge list \<Rightarrow> edge list) \<Rightarrow> item list \<Rightarrow> (item \<times> pytime) list \<Rightarrow>
     pytime \<Rightarrow> pytime \<Rightarrow> pytime \<Rightarrow> int \<Rightarrow> entry list \<times> pydict" where
  "analyse set_iter items iwt anchor_now recent_threshold historical_threshold top_n =
     (let w = scan_windows recent_threshold historical_threshold iwt;
          window_stats = make_stats anchor_now (length iwt) w
      in if length (recent_items w) < 5 \<or> length (historical_items w) < 5
         then fallback_top_edges items top_n (Some (all_edges w))
                (Some (AList.update ''mode'' (StrV ''fallback'') window_stats))
         else let rising_edges = sorted_rising_edges set_iter w
           in if rising_edges = []
              then fallback_top_edges items top_n (Some (all_edges w))
                     (Some (AList.update ''mode'' (StrV ''fallback'') window_stats))
              else (slice_to top_n rising_edges, window_stats))"

definition find_rising_edges ::
  "(edge list \<Rightarrow> edge list) \<Rightarrow> item list \<Rightarrow> int \<Rightarrow> int \<Rightarrow> int \<Rightarrow> error + entry list \<times> pydict" where
  "find_rising_edges set_iter items recent_days historical_days top_n =
     (let iwt = items_with_time items in
      if iwt = [] then Inr (fallback_top_edges items top_n None None)
      else case window_bounds (map snd iwt) recent_days historical_days of
             Inl e \<Rightarrow> Inl e
           | Inr (anchor_now, recent_threshold, historical_threshold) \<Rightarrow>
               Inr (analyse set_iter items iwt anchor_now recent_threshold historical_threshold
                      top_n))"

subsection \<open>Records for the examples\<close>

text \<open>Midnight of day \<open>n\<close> after \<^verbatim>\<open>datetime.min\<close>, and a record with its two keys.\<close>

definition day :: "int \<Rightarrow> pytime" where
  "day n = Naive (n * us_per_day)"

definition post :: "pytime option \<Rightarrow> tag list \<Rightarrow> item" where
  "post t ts = \<lparr>time = t, tags = ts\<rparr>"

text \<open>
  Ten records, five at the anchor and five fifteen days earlier, all with the tags
  \<open>a, b\<close>: both windows are full and the pair has not grown.
\<close>

definition flat_records :: "item list" where
  "flat_records =
     replicate 5 (post (Some (day 738885)) [''a'', ''b'']) @
     replicate 5 (post (Some (day 738870)) [''a'', ''b''])"

text \<open>Two records within the last week and no others.\<close>

definition sparse_records :: "item list" where
  "sparse_records =
     [post (Some (day 738885)) [''a'', ''b''], post (Some (day 738880)) [''b'', ''c'']]"

text \<open>Three records, two of them recent, for a fallback with \<^verbatim>\<open>top_n = 1\<close>.\<close>

definition short_records :: "item list" where
  "short_records =
     [post (Some (day 738885)) [''a'', ''b''], post (Some (day 738885)) [''b'', ''a''],
      post (Some (day 738870)) [''b'', ''c'']]"

text \<open>
  Twelve records: recently the pair \<open>(a, b)\<close> twice and the pair \<open>(c, d)\<close> five times, in
  the historical window \<open>(c, d)\<close> once and \<open>(x, y)\<close> four times. Both \<open>(a, b)\<close> and \<open>(c, d)\<close>
  have the growth 2.
\<close>

definition tied_records :: "item list" where
  "tied_records =
     replicate 2 (post (Some (day 738885)) [''a'', ''b'']) @
     replicate 5 (post (Some (day 738885)) [''c'', ''d'']) @
     [post (Some (day 738870)) [''c'', ''d'']] @
     replicate 4 (post (Some (day 738870)) [''x'', ''y''])"

text \<open>A record with two tags at the anchor and a single-tag record exactly 7 days before it.\<close>

definition boundary_records :: "item list" where
  "boundary_records =
     [post (Some (day 738885)) [''a'', ''b''], post (Some (day 738878)) [''a'']]"

text \<open>A record with two tags at the anchor and another exactly 7 days before it.\<close>

definition threshold_records :: "item list" where
  "threshold_records =
     [post (Some (day 738885)) [''a'', ''b''], post (Some (day 738878)) [''b'', ''c'']]"

text \<open>
  Three records at the anchor: one repeats both of its tags, two hold the pair \<open>(c, d)\<close>.
\<close>

definition repeating_records :: "item list" where
  "repeating_records =
     [post (Some (day 738885)) [''a'', ''a'', ''b'', ''b''],
      post (Some (day 738885)) [''c'', ''d''],
      post (Some (day 738885)) [''c'', ''d'']]"

section \<open>Counters and tag pairs\<close>

lemma counter_get_inc:
  "counter_get (counter_inc k c) k' = (if k' = k then counter_get c k + 1 else counter_get c k')"
  by (simp add: counter_get_def counter_inc_def update_conv')

lemma counter_get_fold_inc:
  "counter_get (fold counter_inc ks c) k = counter_get c k + count_list ks k"
  by (induction ks arbitrary: c) (simp_all add: counter_get_inc)

lemma keys_counter_inc: "fst ` set (counter_inc k c) = insert k (fst ` set c)"
  by (simp add: counter_inc_def dom_update)

lemma keys_fold_inc: "fst ` set (fold counter_inc ks c) = fst ` set c \<union> set ks"
  by (induction ks arbitrary: c) (auto simp: keys_counter_inc)

lemma distinct_counter_inc: "distinct (map fst c) \<Longrightarrow> distinct (map fst (counter_inc k c))"
  by (simp add: counter_inc_def distinct_update)

lemma distinct_fold_inc: "distinct (map fst c) \<Longrightarrow> distinct (map fst (fold counter_inc ks c))"
  by (induction ks arbitrary: c) (simp_all add: distinct_counter_inc)

lemma counter_get_entry:
  "distinct (map fst c) \<Longrightarrow> (k, n) \<in> set c \<Longrightarrow> counter_get c k = n"
  by (simp add: counter_get_def)

lemma counter_get_absent:
  assumes "k \<notin> fst ` set c"
  shows "counter_get c k = 0"
proof -
  have "map_of c k = None" using assms by (simp add: map_of_eq_None_iff)
  then show ?thesis by (simp add: counter_get_def)
qed

lemma count_list_map_Pair:
  "count_list (map (Pair x) xs) (a, b) = (if a = x then count_list xs b else 0)"
  by (induction xs) auto

lemma count_list_0: "a \<notin> set xs \<Longrightarrow> count_list xs a = 0"
  by (simp add: count_list_0_iff)

lemma count_combinations2:
  fixes xs :: "'a::linorder list"
  assumes "sorted xs"
  shows "count_list (combinations2 xs) (a, b) =
           (if a < b then count_list xs a * count_list xs b
            else if a = b then count_list xs a choose 2 else 0)"
  using assms
proof (induction xs)
  case Nil
  then show ?case by simp
next
  case (Cons x xs)
  then have low: "\<forall>y\<in>set xs. x \<le> y" and srt: "sorted xs" by simp_all
  have ih: "count_list (combinations2 xs) (a, b) =
           (if a < b then count_list xs a * count_list xs b
            else if a = b then count_list xs a choose 2 else 0)"
    using Cons.IH srt by simp
  consider (lt) "a < b" | (eq) "a = b" | (gt) "b < a" by (meson less_linear)
  then show ?case
  proof cases
    case lt
    show ?thesis
    proof (cases "x = b")
      case True
      then have "a \<notin> set xs" using low lt by auto
      then show ?thesis using lt True ih by (simp add: count_list_map_Pair count_list_0)
    next
      case False
      then show ?thesis using lt ih by (simp add: count_list_map_Pair)
    qed
  next
    case eq
    have "Suc n choose 2 = n + (n choose 2)" for n :: nat
      by (simp add: numeral_2_eq_2)
    then show ?thesis using eq ih by (simp add: count_list_map_Pair)
  next
    case gt
    show ?thesis
    proof (cases "x = a")
      case True
      then have "b \<notin> set xs" using low gt by auto
      moreover have "\<not> a < b" "a \<noteq> b" using gt by auto
      ultimately show ?thesis using True ih by (simp add: count_list_map_Pair count_list_0)
    next
      case False
      moreover have "\<not> a < b" "a \<noteq> b" using gt by auto
      ultimately show ?thesis using ih by (simp add: count_list_map_Pair)
    qed
  qed
qed

lemma count_list_insort:
  "count_list (insort_key f x xs) a = count_list (x # xs) a"
  by (induction xs) auto

lemma count_list_sort_key: "count_list (sort_key f xs) a = count_list xs a"
  by (induction xs) (simp_all add: count_list_insort)

lemma count_tag_pairs:
  "count_list (tag_pairs ts) (a, b) =
     (if a < b then count_list ts a * count_list ts b
      else if a = b then count_list ts a choose 2 else 0)"
  by (simp add: tag_pairs_def count_combinations2 count_list_sort_key)

lemma count_list_distinct: "distinct xs \<Longrightarrow> count_list xs a = (if a \<in> set xs then 1 else 0)"
  by (induction xs) auto

lemma count_tag_pairs_distinct:
  "distinct ts \<Longrightarrow>
     count_list (tag_pairs ts) (a, b) = (if a < b \<and> a \<in> set ts \<and> b \<in> set ts then 1 else 0)"
  by (simp add: count_tag_pairs count_list_distinct)

lemma tag_pairs_short: "length ts < 2 \<Longrightarrow> tag_pairs ts = []"
proof -
  assume "length ts < 2"
  then have "length (sort ts) < 2" by simp
  then have "combinations2 (sort ts) = []"
    by (cases "sort ts"; cases "tl (sort ts)") auto
  then show ?thesis by (simp add: tag_pairs_def)
qed

lemma tag_pairs_mem:
  assumes "(a, b) \<in> set (tag_pairs ts)"
  shows "a \<le> b \<and> a \<in> set ts \<and> b \<in> set ts"
proof -
  have pos: "0 < count_list (tag_pairs ts) (a, b)"
    using assms count_list_0_iff [of "tag_pairs ts" "(a, b)"] by auto
  have "a \<le> b" using pos by (auto simp: count_tag_pairs split: if_splits)
  moreover have "0 < count_list ts a" "0 < count_list ts b"
    using pos by (auto simp: count_tag_pairs split: if_splits intro: Nat.gr0I)
  ultimately show ?thesis
    using count_list_0_iff [of ts a] count_list_0_iff [of ts b] by auto
qed

lemma update_fresh: "k \<notin> fst ` set al \<Longrightarrow> AList.update k v al = al @ [(k, v)]"
  by (induction al) auto

lemma edge_count_fold:
  "counter_get (fst (fold count_item items acc)) e =
     counter_get (fst acc) e + sum_list (map (\<lambda>it. count_list (tag_pairs (tags it)) e) items)"
  by (induction items arbitrary: acc)
     (simp_all add: count_item_def counter_get_fold_inc tag_pairs_short)

lemma node_count_fold:
  "counter_get (snd (fold count_item items acc)) t =
     counter_get (snd acc) t +
     count_list (concat (map tags (filter (\<lambda>it. 2 \<le> length (tags it)) items))) t"
  by (induction items arbitrary: acc)
     (simp_all add: count_item_def counter_get_fold_inc)

lemma edge_keys_fold:
  "fst ` set (fst (fold count_item items acc)) =
     fst ` set (fst acc) \<union> (\<Union>it\<in>set items. set (tag_pairs (tags it)))"
  by (induction items arbitrary: acc)
     (auto simp: count_item_def keys_fold_inc tag_pairs_short)

lemma node_keys_fold:
  "fst ` set (snd (fold count_item items acc)) =
     fst ` set (snd acc) \<union> set (concat (map tags (filter (\<lambda>it. 2 \<le> length (tags it)) items)))"
  by (induction items arbitrary: acc)
     (auto simp: count_item_def keys_fold_inc)

lemma distinct_count_fold:
  "distinct (map fst (fst acc)) \<Longrightarrow> distinct (map fst (snd acc)) \<Longrightarrow>
     distinct (map fst (fst (fold count_item items acc))) \<and>
     distinct (map fst (snd (fold count_item items acc)))"
  by (induction items arbitrary: acc)
     (simp_all add: count_item_def distinct_fold_inc)

lemma count_concat_tags_distinct:
  "\<forall>it\<in>set items. distinct (tags it) \<Longrightarrow>
     count_list (concat (map tags (filter Q items))) t =
       length (filter (\<lambda>it. Q it \<and> t \<in> set (tags it)) items)"
  by (induction items) (auto simp: count_list_distinct)

section \<open>The graph that the builder returns\<close>

lemma fold_add_node:
  "distinct (map fst c) \<Longrightarrow> fst ` set c \<inter> fst ` set (nodes g) = {} \<Longrightarrow>
     fold add_node c g = g\<lparr>nodes := nodes g @ map (\<lambda>p. (fst p, Some (snd p))) c\<rparr>"
proof (induction c arbitrary: g)
  case Nil
  then show ?case by simp
next
  case (Cons p c)
  have fresh: "fst p \<notin> fst ` set (nodes g)" using Cons.prems by auto
  have step: "add_node p g = g\<lparr>nodes := nodes g @ [(fst p, Some (snd p))]\<rparr>"
    using fresh by (simp add: add_node_def update_fresh)
  have "fst ` set c \<inter> fst ` set (nodes (add_node p g)) = {}"
    using Cons.prems by (auto simp: step)
  moreover have "distinct (map fst c)" using Cons.prems by simp
  ultimately show ?case using Cons.IH [of "add_node p g"] by (simp add: step)
qed

lemma touch_node_present: "u \<in> fst ` set ns \<Longrightarrow> touch_node u ns = ns"
  by (simp add: touch_node_def)

lemma fold_add_edge:
  "distinct (map fst c) \<Longrightarrow> fst ` set c \<inter> fst ` set (edges g) = {} \<Longrightarrow>
   \<forall>p\<in>set c. fst (fst p) \<le> snd (fst p) \<and> fst (fst p) \<in> fst ` set (nodes g) \<and>
                snd (fst p) \<in> fst ` set (nodes g) \<Longrightarrow>
   \<forall>k\<in>fst ` set (edges g). fst k \<le> snd k \<Longrightarrow>
     fold add_edge c g = g\<lparr>edges := edges g @ c\<rparr>"
proof (induction c arbitrary: g)
  case Nil
  then show ?case by simp
next
  case (Cons p c)
  obtain u v w where p: "p = ((u, v), w)" by (metis surj_pair)
  have fresh: "(u, v) \<notin> fst ` set (edges g)" using Cons.prems(2) p by auto
  have uv: "u \<le> v" "u \<in> fst ` set (nodes g)" "v \<in> fst ` set (nodes g)"
    using Cons.prems(3) p by auto
  have "(v, u) \<notin> fst ` set (edges g)"
  proof
    assume rev: "(v, u) \<in> fst ` set (edges g)"
    then have "v \<le> u" using Cons.prems(4) by fastforce
    then have "u = v" using uv(1) by simp
    then show False using rev fresh by simp
  qed
  then have step: "add_edge p g = g\<lparr>edges := edges g @ [p]\<rparr>"
    using fresh uv by (simp add: add_edge_def p touch_node_present update_fresh)
  have a: "distinct (map fst c)" using Cons.prems(1) by simp
  have b: "fst ` set c \<inter> fst ` set (edges (add_edge p g)) = {}"
    using Cons.prems(1,2) by (auto simp: step)
  have c: "\<forall>q\<in>set c. fst (fst q) \<le> snd (fst q) \<and> fst (fst q) \<in> fst ` set (nodes (add_edge p g)) \<and>
                snd (fst q) \<in> fst ` set (nodes (add_edge p g))"
    using Cons.prems(3) by (simp add: step)
  have d: "\<forall>k\<in>fst ` set (edges (add_edge p g)). fst k \<le> snd k"
    unfolding step using Cons.prems(4) uv(1) by (auto simp: p)
  show ?case using Cons.IH [OF a b c d] by (simp add: step)
qed

lemma distinct_counters:
  "distinct (map fst (edge_weights items))" "distinct (map fst (node_occurrences items))"
  using distinct_count_fold [of "([], [])" items]
  by (simp_all add: edge_weights_def node_occurrences_def)

lemma edge_weights_keys:
  assumes "((a, b), n) \<in> set (edge_weights items)"
  shows "a \<le> b \<and> a \<in> fst ` set (node_occurrences items) \<and> b \<in> fst ` set (node_occurrences items)"
proof -
  have "(a, b) \<in> fst ` set (edge_weights items)" using assms by force
  then obtain it where it: "it \<in> set items" "(a, b) \<in> set (tag_pairs (tags it))"
    by (auto simp: edge_weights_def edge_keys_fold)
  then have m: "a \<le> b" "a \<in> set (tags it)" "b \<in> set (tags it)"
    using tag_pairs_mem by blast+
  have "2 \<le> length (tags it)" using it(2) tag_pairs_short [of "tags it"] by fastforce
  then have "set (tags it) \<subseteq> fst ` set (node_occurrences items)"
    using it(1) by (auto simp: node_occurrences_def node_keys_fold)
  then show ?thesis using m by blast
qed

lemma build_graph_eq:
  "build_graph items =
     \<lparr>nodes = map (\<lambda>p. (fst p, Some (snd p))) (node_occurrences items),
      edges = edge_weights items\<rparr>"
proof -
  let ?g = "fold add_node (node_occurrences items) empty_graph"
  have g: "?g = \<lparr>nodes = map (\<lambda>p. (fst p, Some (snd p))) (node_occurrences items), edges = []\<rparr>"
    using fold_add_node [of "node_occurrences items" empty_graph] distinct_counters(2) [of items]
    by (simp add: empty_graph_def)
  have keys: "fst ` set (nodes ?g) = fst ` set (node_occurrences items)"
    by (force simp: g)
  have "fold add_edge (edge_weights items) ?g = ?g\<lparr>edges := edges ?g @ edge_weights items\<rparr>"
  proof (rule fold_add_edge)
    show "distinct (map fst (edge_weights items))" by (rule distinct_counters)
    show "fst ` set (edge_weights items) \<inter> fst ` set (edges ?g) = {}" by (simp add: g)
    show "\<forall>p\<in>set (edge_weights items). fst (fst p) \<le> snd (fst p) \<and>
            fst (fst p) \<in> fst ` set (nodes ?g) \<and> snd (fst p) \<in> fst ` set (nodes ?g)"
      unfolding keys using edge_weights_keys by (metis prod.collapse)
    show "\<forall>k\<in>fst ` set (edges ?g). fst k \<le> snd k" by (simp add: g)
  qed
  then show ?thesis by (simp add: build_graph_def g)
qed

section \<open>The window loop\<close>

lemma all_edges_step:
  "all_edges (window_step rt ht p w) = fold counter_inc (tag_pairs (tags (fst p))) (all_edges w)"
  by (simp add: window_step_def Let_def tag_pairs_short)

lemma recent_edges_step:
  "recent_edges (window_step rt ht p w) =
     (if in_recent rt p then fold counter_inc (tag_pairs (tags (fst p))) (recent_edges w)
      else recent_edges w)"
  by (simp add: window_step_def Let_def tag_pairs_short in_recent_def)

lemma historical_edges_step:
  "historical_edges (window_step rt ht p w) =
     (if in_historical rt ht p
      then fold counter_inc (tag_pairs (tags (fst p))) (historical_edges w)
      else historical_edges w)"
  by (simp add: window_step_def Let_def tag_pairs_short in_historical_def)

lemma recent_items_step:
  "recent_items (window_step rt ht p w) =
     (if 2 \<le> length (tags (fst p)) \<and> in_recent rt p then recent_items w @ [fst p]
      else recent_items w)"
  by (simp add: window_step_def Let_def in_recent_def)

lemma historical_items_step:
  "historical_items (window_step rt ht p w) =
     (if 2 \<le> length (tags (fst p)) \<and> in_historical rt ht p then historical_items w @ [fst p]
      else historical_items w)"
  by (simp add: window_step_def Let_def in_historical_def)

lemma all_edges_fold:
  "counter_get (all_edges (fold (window_step rt ht) iwt w)) e =
     counter_get (all_edges w) e +
     sum_list (map (\<lambda>p. count_list (tag_pairs (tags (fst p))) e) iwt)"
  by (induction iwt arbitrary: w) (simp_all add: all_edges_step counter_get_fold_inc)

lemma recent_edges_fold:
  "counter_get (recent_edges (fold (window_step rt ht) iwt w)) e =
     counter_get (recent_edges w) e +
     sum_list (map (\<lambda>p. count_list (tag_pairs (tags (fst p))) e) (filter (in_recent rt) iwt))"
  by (induction iwt arbitrary: w) (simp_all add: recent_edges_step counter_get_fold_inc)

lemma historical_edges_fold:
  "counter_get (historical_edges (fold (window_step rt ht) iwt w)) e =
     counter_get (historical_edges w) e +
     sum_list (map (\<lambda>p. count_list (tag_pairs (tags (fst p))) e)
       (filter (in_historical rt ht) iwt))"
  by (induction iwt arbitrary: w) (simp_all add: historical_edges_step counter_get_fold_inc)

lemma recent_items_fold:
  "recent_items (fold (window_step rt ht) iwt w) =
     recent_items w @
     map fst (filter (\<lambda>p. 2 \<le> length (tags (fst p)) \<and> in_recent rt p) iwt)"
  by (induction iwt arbitrary: w) (simp_all add: recent_items_step)

lemma historical_items_fold:
  "historical_items (fold (window_step rt ht) iwt w) =
     historical_items w @
     map fst (filter (\<lambda>p. 2 \<le> length (tags (fst p)) \<and> in_historical rt ht p) iwt)"
  by (induction iwt arbitrary: w) (simp_all add: historical_items_step)

lemma distinct_windows_fold:
  "distinct (map fst (all_edges w)) \<Longrightarrow> distinct (map fst (recent_edges w)) \<Longrightarrow>
   distinct (map fst (historical_edges w)) \<Longrightarrow>
     distinct (map fst (all_edges (fold (window_step rt ht) iwt w))) \<and>
     distinct (map fst (recent_edges (fold (window_step rt ht) iwt w))) \<and>
     distinct (map fst (historical_edges (fold (window_step rt ht) iwt w)))"
  by (induction iwt arbitrary: w)
     (simp_all add: all_edges_step recent_edges_step historical_edges_step distinct_fold_inc)

lemma all_edges_keys_fold:
  "fst ` set (all_edges (fold (window_step rt ht) iwt w)) =
     fst ` set (all_edges w) \<union> (\<Union>p\<in>set iwt. set (tag_pairs (tags (fst p))))"
  by (induction iwt arbitrary: w) (auto simp: all_edges_step keys_fold_inc)

lemma counter_get_Nil: "counter_get [] k = 0"
  by (simp add: counter_get_def)

lemma scan_all_edges:
  "counter_get (all_edges (scan_windows rt ht iwt)) e =
     sum_list (map (\<lambda>p. count_list (tag_pairs (tags (fst p))) e) iwt)"
  by (simp add: scan_windows_def all_edges_fold empty_windows_def counter_get_Nil)

lemma scan_recent_edges:
  "counter_get (recent_edges (scan_windows rt ht iwt)) e =
     sum_list (map (\<lambda>p. count_list (tag_pairs (tags (fst p))) e) (filter (in_recent rt) iwt))"
  by (simp add: scan_windows_def recent_edges_fold empty_windows_def counter_get_Nil)

lemma scan_historical_edges:
  "counter_get (historical_edges (scan_windows rt ht iwt)) e =
     sum_list (map (\<lambda>p. count_list (tag_pairs (tags (fst p))) e)
       (filter (in_historical rt ht) iwt))"
  by (simp add: scan_windows_def historical_edges_fold empty_windows_def counter_get_Nil)

lemma scan_recent_items:
  "recent_items (scan_windows rt ht iwt) =
     map fst (filter (\<lambda>p. 2 \<le> length (tags (fst p)) \<and> in_recent rt p) iwt)"
  by (simp add: scan_windows_def recent_items_fold empty_windows_def)

lemma scan_historical_items:
  "historical_items (scan_windows rt ht iwt) =
     map fst (filter (\<lambda>p. 2 \<le> length (tags (fst p)) \<and> in_historical rt ht p) iwt)"
  by (simp add: scan_windows_def historical_items_fold empty_windows_def)

lemma scan_distinct:
  "distinct (map fst (all_edges (scan_windows rt ht iwt)))"
  "distinct (map fst (recent_edges (scan_windows rt ht iwt)))"
  "distinct (map fst (historical_edges (scan_windows rt ht iwt)))"
  using distinct_windows_fold [of empty_windows rt ht iwt]
  by (simp_all add: scan_windows_def empty_windows_def)

lemma scan_all_edges_keys:
  "fst ` set (all_edges (scan_windows rt ht iwt)) = (\<Union>p\<in>set iwt. set (tag_pairs (tags (fst p))))"
  by (simp add: scan_windows_def all_edges_keys_fold empty_windows_def)

lemma repeated_element: "\<not> distinct xs \<Longrightarrow> \<exists>t. 2 \<le> count_list xs t"
proof (induction xs)
  case Nil
  then show ?case by simp
next
  case (Cons x xs)
  show ?case
  proof (cases "x \<in> set xs")
    case True
    then have "0 < count_list xs x" using count_list_0_iff [of xs x] by auto
    then have "2 \<le> count_list (x # xs) x" by simp
    then show ?thesis by blast
  next
    case False
    then obtain t where "2 \<le> count_list xs t" using Cons by auto
    then have "2 \<le> count_list (x # xs) t" by simp
    then show ?thesis by blast
  qed
qed

lemma edge_weights_count:
  "counter_get (edge_weights items) e = sum_list (map (\<lambda>it. count_list (tag_pairs (tags it)) e) items)"
  by (simp add: edge_weights_def edge_count_fold counter_get_Nil)

lemma edge_weights_key_set:
  "fst ` set (edge_weights items) = (\<Union>it\<in>set items. set (tag_pairs (tags it)))"
  by (simp add: edge_weights_def edge_keys_fold)

lemma node_occurrences_keys:
  "fst ` set (node_occurrences items) =
     set (concat (map tags (filter (\<lambda>it. 2 \<le> length (tags it)) items)))"
  by (simp add: node_occurrences_def node_keys_fold)

lemma node_occurrences_count:
  "counter_get (node_occurrences items) t =
     count_list (concat (map tags (filter (\<lambda>it. 2 \<le> length (tags it)) items))) t"
  by (simp add: node_occurrences_def node_count_fold counter_get_Nil)

lemma map_of_counter:
  assumes "k \<in> fst ` set c"
  shows "map_of c k = Some (counter_get c k)"
proof -
  obtain n where "map_of c k = Some n"
    using assms by (metis map_of_eq_None_iff not_Some_eq)
  then show ?thesis by (simp add: counter_get_def)
qed

lemma map_of_node_attrs:
  "map_of (map (\<lambda>p. (fst p, Some (snd p))) c) k = map_option Some (map_of c k)"
  by (induction c) auto

lemma no_parallel_edges_ordered:
  assumes "distinct (map fst (edges g))" and "\<forall>k\<in>set (map fst (edges g)). fst k \<le> snd k"
  shows "no_parallel_edges g"
  unfolding no_parallel_edges_def
proof (intro conjI ballI impI)
  show "distinct (map fst (edges g))" by (rule assms(1))
next
  fix k assume k: "k \<in> set (map fst (edges g))" "fst k \<noteq> snd k"
  show "(snd k, fst k) \<notin> set (map fst (edges g))"
  proof
    assume "(snd k, fst k) \<in> set (map fst (edges g))"
    then have "snd k \<le> fst k" using assms(2) by fastforce
    moreover have "fst k \<le> snd k" using assms(2) k(1) by blast
    ultimately show False using k(2) by simp
  qed
qed

lemma scan_all_edges_pair_count:
  "counter_get (all_edges (scan_windows rt ht iwt)) e = pair_count (map fst iwt) e"
  by (simp add: scan_all_edges pair_count_def comp_def)

lemma scan_recent_edges_pair_count:
  "counter_get (recent_edges (scan_windows rt ht iwt)) e =
     pair_count (map fst (filter (in_recent rt) iwt)) e"
  by (simp add: scan_recent_edges pair_count_def comp_def)

lemma scan_historical_edges_pair_count:
  "counter_get (historical_edges (scan_windows rt ht iwt)) e =
     pair_count (map fst (filter (in_historical rt ht) iwt)) e"
  by (simp add: scan_historical_edges pair_count_def comp_def)

lemma pair_count_weight: "pair_count its e = pair_weight its e"
  by (cases e) (simp add: pair_count_def pair_weight_def count_tag_pairs cong: if_cong)

lemma pair_weight_distinct:
  assumes "\<forall>it\<in>set its. distinct (tags it)"
  shows "pair_weight its (a, b) =
           (if a < b then length (filter (\<lambda>it. a \<in> set (tags it) \<and> b \<in> set (tags it)) its)
            else 0)"
  using assms by (induction its) (auto simp: pair_weight_def count_list_distinct)

section \<open>Claims about the graph builder\<close>

text \<open>
  C1 (as amended). Tags are not de-duplicated. One record yields the pair \<open>(a, b)\<close> with
  \<open>a < b\<close> as often as the product of the occurrences of \<open>a\<close> and of \<open>b\<close> in its tag list,
  and the pair \<open>(a, a)\<close> once for every two occurrences of \<open>a\<close>: a tag list with \<open>a\<close> twice and
  \<open>b\<close> once yields \<open>(a, b)\<close> twice and \<open>(a, a)\<close> once. A record whose tags are pairwise distinct
  yields each unordered pair of its tags exactly once and no other pair. The weight of a
  pair, in the graph and in each window counter of \<^verbatim>\<open>find_rising_edges\<close>, is the sum of
  these numbers over the records counted.
\<close>

theorem pair_weight_per_record:
  "counter_get (edges (build_graph items)) e =
     sum_list (map (\<lambda>it. count_list (tag_pairs (tags it)) e) items) \<and>
   counter_get (recent_edges (scan_windows rt ht iwt)) e =
     sum_list (map (\<lambda>p. count_list (tag_pairs (tags (fst p))) e) (filter (in_recent rt) iwt)) \<and>
   counter_get (historical_edges (scan_windows rt ht iwt)) e =
     sum_list (map (\<lambda>p. count_list (tag_pairs (tags (fst p))) e)
       (filter (in_historical rt ht) iwt)) \<and>
   counter_get (all_edges (scan_windows rt ht iwt)) e =
     sum_list (map (\<lambda>p. count_list (tag_pairs (tags (fst p))) e) iwt) \<and>
   (distinct ts \<longrightarrow>
      count_list (tag_pairs ts) (a, b) = (if a < b \<and> a \<in> set ts \<and> b \<in> set ts then 1 else 0)) \<and>
   count_list (tag_pairs ts) (a, b) =
     (if a < b then count_list ts a * count_list ts b
      else if a = b then count_list ts a choose 2
      else 0) \<and>
   (a < b \<and> count_list ts a = 2 \<and> count_list ts b = 1 \<longrightarrow>
      count_list (tag_pairs ts) (a, b) = 2 \<and> count_list (tag_pairs ts) (a, a) = 1) \<and>
   counter_get (edges (build_graph items)) e = pair_weight items e \<and>
   counter_get (recent_edges (scan_windows rt ht iwt)) e =
     pair_weight (map fst (filter (in_recent rt) iwt)) e \<and>
   counter_get (historical_edges (scan_windows rt ht iwt)) e =
     pair_weight (map fst (filter (in_historical rt ht) iwt)) e \<and>
   counter_get (all_edges (scan_windows rt ht iwt)) e = pair_weight (map fst iwt) e"
proof -
  have old: "counter_get (edges (build_graph items)) e =
     sum_list (map (\<lambda>it. count_list (tag_pairs (tags it)) e) items) \<and>
   counter_get (recent_edges (scan_windows rt ht iwt)) e =
     sum_list (map (\<lambda>p. count_list (tag_pairs (tags (fst p))) e) (filter (in_recent rt) iwt)) \<and>
   counter_get (historical_edges (scan_windows rt ht iwt)) e =
     sum_list (map (\<lambda>p. count_list (tag_pairs (tags (fst p))) e)
       (filter (in_historical rt ht) iwt)) \<and>
   counter_get (all_edges (scan_windows rt ht iwt)) e =
     sum_list (map (\<lambda>p. count_list (tag_pairs (tags (fst p))) e) iwt) \<and>
   (distinct ts \<longrightarrow>
      count_list (tag_pairs ts) (a, b) = (if a < b \<and> a \<in> set ts \<and> b \<in> set ts then 1 else 0))"
    by (simp add: build_graph_eq edge_weights_count scan_recent_edges scan_historical_edges
        scan_all_edges count_tag_pairs_distinct)
  have general: "count_list (tag_pairs ts) (a, b) =
     (if a < b then count_list ts a * count_list ts b
      else if a = b then count_list ts a choose 2
      else 0)"
    by (rule count_tag_pairs)
  have twice: "count_list (tag_pairs ts) (a, b) = 2 \<and> count_list (tag_pairs ts) (a, a) = 1"
    if "a < b \<and> count_list ts a = 2 \<and> count_list ts b = 1"
    using that by (simp add: count_tag_pairs)
  have g: "counter_get (edges (build_graph items)) e = pair_weight items e"
    using edge_weights_count [of items e] pair_count_weight [of items e]
    by (simp add: build_graph_eq pair_count_def)
  have r: "counter_get (recent_edges (scan_windows rt ht iwt)) e =
     pair_weight (map fst (filter (in_recent rt) iwt)) e"
    by (simp add: scan_recent_edges_pair_count pair_count_weight)
  have h: "counter_get (historical_edges (scan_windows rt ht iwt)) e =
     pair_weight (map fst (filter (in_historical rt ht) iwt)) e"
    by (simp add: scan_historical_edges_pair_count pair_count_weight)
  have al: "counter_get (all_edges (scan_windows rt ht iwt)) e = pair_weight (map fst iwt) e"
    by (simp add: scan_all_edges_pair_count pair_count_weight)
  show ?thesis using old general twice g r h al by blast
qed

text \<open>
  C1, witness: two records without repeated tags, both holding \<open>a\<close> and \<open>b\<close>, give the
  pair the weight 2 in the graph and in the recent window; the tag list \<open>a, a, b\<close> yields
  \<open>(a, b)\<close> twice and \<open>(a, a)\<close> once.
\<close>

theorem pair_weight_per_record_witness:
  "distinct [''a'', ''b'', ''c''] \<and>
   count_list (tag_pairs [''a'', ''b'', ''c'']) (''a'', ''b'') = 1 \<and>
   counter_get (edges (build_graph [post None [''a'', ''b'', ''c''], post None [''b'', ''a'']]))
     (''a'', ''b'') = 2 \<and>
   counter_get (recent_edges (scan_windows (day 3) (day 1)
       [(post (Some (day 5)) [''a'', ''b'', ''c''], day 5), (post (Some (day 4)) [''b'', ''a''], day 4)]))
     (''a'', ''b'') = 2 \<and>
   ''a'' < ''b'' \<and>
   count_list [''a'', ''a'', ''b''] ''a'' = 2 \<and>
   count_list [''a'', ''a'', ''b''] ''b'' = 1 \<and>
   count_list (tag_pairs [''a'', ''a'', ''b'']) (''a'', ''b'') = 2 \<and>
   count_list (tag_pairs [''a'', ''a'', ''b'']) (''a'', ''a'') = 1"
  using pair_weight_per_record [of "[post None [''a'', ''b'', ''c''], post None [''b'', ''a'']]"
      "(''a'', ''b'')" "day 3" "day 1"
      "[(post (Some (day 5)) [''a'', ''b'', ''c''], day 5), (post (Some (day 4)) [''b'', ''a''], day 4)]"
      "[''a'', ''b'', ''c'']" "''a''" "''b''"]
    pair_weight_per_record [of "[]" "(''a'', ''b'')" "day 3" "day 1" "[]"
      "[''a'', ''a'', ''b'']" "''a''" "''b''"]
  by (simp add: post_def count_tag_pairs in_recent_def time_ge_def day_def us_per_day_def
      pair_weight_def)

text \<open>
  C1, counterexample: one record with the tags \<open>a, a, b\<close> gives the pair \<open>(a, b)\<close> the weight
  2 in the graph, and \<^verbatim>\<open>find_rising_edges\<close> reports the count 2 for it, next to the pair
  \<open>(a, a)\<close>.
\<close>

theorem duplicate_tags_inflate_weight:
  "counter_get (edges (build_graph [post None [''a'', ''a'', ''b'']])) (''a'', ''b'') = 2 \<and>
   find_rising_edges remdups [post (Some (day 738885)) [''a'', ''a'', ''b'']] 7 30 10 =
     Inr ([(''a'', ''b'', 0,
            [(''total_count'', IntV 2), (''fallback_reason'', StrV ''insufficient_window_samples'')]),
           (''a'', ''a'', 0,
            [(''total_count'', IntV 1), (''fallback_reason'', StrV ''insufficient_window_samples'')])],
          [(''anchor_now'', TimeV (day 738885)),
           (''recent_count'', IntV 1),
           (''historical_count'', IntV 0),
           (''total_count'', IntV 1),
           (''recent_edges_count'', IntV 2),
           (''historical_edges_count'', IntV 0),
           (''mode'', StrV ''fallback'')])"
  by code_simp

text \<open>
  C2 (as amended). The nodes of the graph are the tags of the records that hold at least
  two tags; a record with fewer than two tags is skipped before its tags are counted, so
  it adds neither an edge nor a node count. The \<^verbatim>\<open>weight\<close> attribute of a node is the number
  of times the tag occurs in the tag lists of the records with at least two tags; where
  no record repeats a tag, that is the number of such records that contain the tag.
\<close>

theorem build_graph_nodes:
  "set (map fst (nodes (build_graph items))) =
     set (concat (map tags (filter (\<lambda>it. 2 \<le> length (tags it)) items))) \<and>
   distinct (map fst (nodes (build_graph items))) \<and>
   (t \<in> set (map fst (nodes (build_graph items))) \<longrightarrow>
      map_of (nodes (build_graph items)) t =
        Some (Some (count_list (concat (map tags (filter (\<lambda>it. 2 \<le> length (tags it)) items))) t))) \<and>
   ((\<forall>it\<in>set items. distinct (tags it)) \<longrightarrow>
      count_list (concat (map tags (filter (\<lambda>it. 2 \<le> length (tags it)) items))) t =
        length (filter (\<lambda>it. 2 \<le> length (tags it) \<and> t \<in> set (tags it)) items))"
proof -
  have keys: "map fst (nodes (build_graph items)) = map fst (node_occurrences items)"
    by (simp add: build_graph_eq comp_def)
  have a: "set (map fst (nodes (build_graph items))) =
     set (concat (map tags (filter (\<lambda>it. 2 \<le> length (tags it)) items)))"
    unfolding keys using node_occurrences_keys [of items] by simp
  have b: "distinct (map fst (nodes (build_graph items)))"
    unfolding keys by (rule distinct_counters)
  have c: "map_of (nodes (build_graph items)) t =
        Some (Some (count_list (concat (map tags (filter (\<lambda>it. 2 \<le> length (tags it)) items))) t))"
    if "t \<in> set (map fst (nodes (build_graph items)))"
  proof -
    have "t \<in> fst ` set (node_occurrences items)" using that unfolding keys by simp
    then have "map_of (node_occurrences items) t = Some (counter_get (node_occurrences items) t)"
      by (rule map_of_counter)
    then show ?thesis
      by (simp add: build_graph_eq map_of_node_attrs node_occurrences_count)
  qed
  have d: "count_list (concat (map tags (filter (\<lambda>it. 2 \<le> length (tags it)) items))) t =
        length (filter (\<lambda>it. 2 \<le> length (tags it) \<and> t \<in> set (tags it)) items)"
    if "\<forall>it\<in>set items. distinct (tags it)"
    using that by (rule count_concat_tags_distinct)
  show ?thesis using a b c d by blast
qed

text \<open>
  C2, witness: of three records without repeated tags, the two with two tags each hold
  \<open>a\<close>, and the node \<open>a\<close> has the weight 2; the record with the single tag \<open>a\<close> is not counted.
\<close>

theorem build_graph_nodes_witness:
  "distinct [''a''] \<and> distinct [''a'', ''b''] \<and> distinct [''c'', ''a''] \<and>
   ''a'' \<in> set (map fst (nodes (build_graph
      [post None [''a''], post None [''a'', ''b''], post None [''c'', ''a'']]))) \<and>
   map_of (nodes (build_graph [post None [''a''], post None [''a'', ''b''], post None [''c'', ''a'']]))
     ''a'' = Some (Some 2)"
  using build_graph_nodes [of "[post None [''a''], post None [''a'', ''b''], post None [''c'', ''a'']]"
      "''a''"]
  by (simp add: post_def)

text \<open>
  C2, counterexample: the tag \<open>a\<close> of a single-tag record is no node of the graph, and the
  tag \<open>b\<close>, twice in one record, has the weight 2 although one record contains it.
\<close>

theorem single_tag_record_adds_no_node:
  "build_graph [post None [''a''], post None [''b'', ''b'', ''c'']] =
     \<lparr>nodes = [(''b'', Some 2), (''c'', Some 1)],
      edges = [((''b'', ''b''), 1), ((''b'', ''c''), 2)]\<rparr>"
  by code_simp

text \<open>
  C9 (as amended). The graph has no parallel edges: no pair is stored twice, in either
  orientation. It has no self-loop exactly when no record repeats a tag; a record that
  holds a tag twice creates the edge from the tag to itself.
\<close>

theorem build_graph_simple:
  "no_parallel_edges (build_graph items) \<and>
   (no_self_loops (build_graph items) \<longleftrightarrow> (\<forall>it\<in>set items. distinct (tags it)))"
proof -
  have keys: "set (map fst (edges (build_graph items))) =
      (\<Union>it\<in>set items. set (tag_pairs (tags it)))"
    using edge_weights_key_set [of items] by (simp add: build_graph_eq)
  have ord: "\<forall>k\<in>set (map fst (edges (build_graph items))). fst k \<le> snd k"
    unfolding keys using tag_pairs_mem by (metis UN_E prod.collapse)
  have "distinct (map fst (edges (build_graph items)))"
    by (simp add: build_graph_eq distinct_counters)
  then have par: "no_parallel_edges (build_graph items)"
    using ord by (rule no_parallel_edges_ordered)
  have loops: "no_self_loops (build_graph items) \<longleftrightarrow> (\<forall>it\<in>set items. distinct (tags it))"
  proof
    assume nsl: "no_self_loops (build_graph items)"
    show "\<forall>it\<in>set items. distinct (tags it)"
    proof (rule ballI, rule ccontr)
      fix it assume it: "it \<in> set items" "\<not> distinct (tags it)"
      then obtain t where t: "2 \<le> count_list (tags it) t"
        using repeated_element by blast
      have "count_list (tags it) t choose 2 \<noteq> 0" using t by simp
      then have "count_list (tag_pairs (tags it)) (t, t) \<noteq> 0"
        by (simp add: count_tag_pairs)
      then have "(t, t) \<in> set (tag_pairs (tags it))"
        using count_list_0_iff [of "tag_pairs (tags it)" "(t, t)"] by auto
      then have "(t, t) \<in> set (map fst (edges (build_graph items)))"
        unfolding keys using it(1) by blast
      then show False using nsl unfolding no_self_loops_def by fastforce
    qed
  next
    assume dist: "\<forall>it\<in>set items. distinct (tags it)"
    show "no_self_loops (build_graph items)"
      unfolding no_self_loops_def
    proof
      fix k assume "k \<in> set (map fst (edges (build_graph items)))"
      then obtain it where it: "it \<in> set items" "k \<in> set (tag_pairs (tags it))"
        unfolding keys by blast
      then have "count_list (tag_pairs (tags it)) k \<noteq> 0"
        using count_list_0_iff [of "tag_pairs (tags it)" k] by simp
      then have "count_list (tag_pairs (tags it)) (fst k, snd k) \<noteq> 0"
        by simp
      moreover have "distinct (tags it)" using dist it(1) by blast
      ultimately have "fst k < snd k"
        using count_tag_pairs_distinct [of "tags it" "fst k" "snd k"]
        by (simp split: if_splits)
      then show "fst k \<noteq> snd k" by simp
    qed
  qed
  show ?thesis using par loops by blast
qed

text \<open>
  C9, witness: two records without repeated tags give a graph without parallel edges and
  without self-loops.
\<close>

theorem build_graph_simple_witness:
  "distinct [''a'', ''b''] \<and> distinct [''b'', ''c'', ''a''] \<and>
   no_parallel_edges (build_graph [post None [''a'', ''b''], post None [''b'', ''c'', ''a'']]) \<and>
   no_self_loops (build_graph [post None [''a'', ''b''], post None [''b'', ''c'', ''a'']])"
  using build_graph_simple [of "[post None [''a'', ''b''], post None [''b'', ''c'', ''a'']]"]
  by (simp add: post_def)

text \<open>
  C9, counterexample: a record with the tags \<open>a, a\<close> gives a graph whose only edge joins
  \<open>a\<close> to itself.
\<close>

theorem repeated_tag_makes_self_loop:
  "edges (build_graph [post None [''a'', ''a'']]) = [((''a'', ''a''), 1)] \<and>
   \<not> no_self_loops (build_graph [post None [''a'', ''a'']])"
  by code_simp

section \<open>The trend analysis: anchor, thresholds and the three outcomes\<close>

lemma max_from_props:
  "max_from m ts = Inr a \<Longrightarrow>
     a \<in> set (m # ts) \<and> (\<forall>t\<in>set (m # ts). utc_us t \<le> utc_us a \<and> is_aware t = is_aware a)"
proof (induction ts arbitrary: m)
  case Nil
  then show ?case by simp
next
  case (Cons t ts)
  show ?case
  proof (cases "is_aware t = is_aware m")
    case False
    then show ?thesis using Cons.prems by (simp add: time_gt_def)
  next
    case True
    let ?m' = "if utc_us m < utc_us t then t else m"
    have "max_from ?m' ts = Inr a" using Cons.prems True by (simp add: time_gt_def)
    then have ih: "a \<in> set (?m' # ts)"
      "\<forall>x\<in>set (?m' # ts). utc_us x \<le> utc_us a \<and> is_aware x = is_aware a"
      using Cons.IH [of ?m'] by blast+
    have m': "utc_us ?m' \<le> utc_us a" "is_aware ?m' = is_aware a" using ih(2) by simp_all
    have "utc_us m \<le> utc_us a" "utc_us t \<le> utc_us a" using m'(1) by (auto split: if_splits)
    moreover have "is_aware m = is_aware a" "is_aware t = is_aware a"
      using m'(2) True by (auto split: if_splits)
    moreover have "a \<in> set (m # t # ts)" using ih(1) by (auto split: if_splits)
    ultimately show ?thesis using ih(2) by auto
  qed
qed

text \<open>\<^verbatim>\<open>max\<close> returns whenever all timestamps are of one kind.\<close>

lemma max_from_same_kind:
  "\<forall>t\<in>set ts. is_aware t = is_aware m \<Longrightarrow> \<exists>a. max_from m ts = Inr a"
proof (induction ts arbitrary: m)
  case Nil
  then show ?case by simp
next
  case (Cons t ts)
  let ?m' = "if utc_us m < utc_us t then t else m"
  have "\<forall>x\<in>set ts. is_aware x = is_aware ?m'" using Cons.prems by auto
  then obtain a where "max_from ?m' ts = Inr a" using Cons.IH [of ?m'] by blast
  then show ?case using Cons.prems by (simp add: time_gt_def)
qed

lemma minus_days_props:
  "minus_days t d = Inr t' \<Longrightarrow>
     utc_us t' = utc_us t - d * us_per_day \<and> is_aware t' = is_aware t"
  by (cases t) (auto simp: minus_days_def Let_def split: if_splits)

lemma window_bounds_parts:
  assumes "window_bounds ts rdays hdays = Inr (anchor_now, rt, ht)"
  shows "\<exists>t0 rest. ts = t0 # rest \<and> max_from t0 rest = Inr anchor_now \<and>
           minus_days anchor_now rdays = Inr rt \<and>
           minus_days anchor_now (rdays + hdays) = Inr ht"
  using assms by (auto simp: window_bounds_def split: list.splits sum.splits)

lemma window_bounds_props:
  assumes "window_bounds ts rdays hdays = Inr (anchor_now, rt, ht)"
  shows "anchor_now \<in> set ts"
    and "\<forall>t\<in>set ts. utc_us t \<le> utc_us anchor_now"
    and "utc_us rt = utc_us anchor_now - rdays * us_per_day"
    and "utc_us ht = utc_us anchor_now - (rdays + hdays) * us_per_day"
proof -
  obtain t0 rest where ts: "ts = t0 # rest"
    and mx: "max_from t0 rest = Inr anchor_now"
    and r: "minus_days anchor_now rdays = Inr rt"
    and h: "minus_days anchor_now (rdays + hdays) = Inr ht"
    using window_bounds_parts [OF assms] by blast
  show "anchor_now \<in> set ts" using max_from_props [OF mx] ts by auto
  show "\<forall>t\<in>set ts. utc_us t \<le> utc_us anchor_now" using max_from_props [OF mx] ts by auto
  show "utc_us rt = utc_us anchor_now - rdays * us_per_day" using minus_days_props [OF r] by simp
  show "utc_us ht = utc_us anchor_now - (rdays + hdays) * us_per_day"
    using minus_days_props [OF h] by simp
qed

text \<open>
  Once the anchor and both thresholds exist, every timestamp is of their kind (all naive or
  all aware), so no comparison of the window loop can raise.
\<close>

lemma window_bounds_kind:
  assumes "window_bounds ts rdays hdays = Inr (anchor_now, rt, ht)" and "t \<in> set ts"
  shows "is_aware t = is_aware rt \<and> is_aware t = is_aware ht"
proof -
  obtain t0 rest where ts: "ts = t0 # rest"
    and mx: "max_from t0 rest = Inr anchor_now"
    and r: "minus_days anchor_now rdays = Inr rt"
    and h: "minus_days anchor_now (rdays + hdays) = Inr ht"
    using window_bounds_parts [OF assms(1)] by blast
  have "is_aware t = is_aware anchor_now" using max_from_props [OF mx] ts assms(2) by auto
  then show ?thesis using minus_days_props [OF r] minus_days_props [OF h] by simp
qed

lemma items_with_time_mem:
  "(it, t) \<in> set (items_with_time items) \<longleftrightarrow> it \<in> set items \<and> time it = Some t"
  by (auto simp: items_with_time_def split: option.splits)

lemma find_rising_edges_windows:
  assumes "items_with_time items \<noteq> []"
    and "window_bounds (map snd (items_with_time items)) rdays hdays = Inr (anchor_now, rt, ht)"
  shows "find_rising_edges set_iter items rdays hdays top_n =
           Inr (analyse set_iter items (items_with_time items) anchor_now rt ht top_n)"
  using assms by (simp add: find_rising_edges_def)

lemma update_mode_make_stats:
  "AList.update ''mode'' (StrV ''fallback'') (make_stats a n w) =
     [(''anchor_now'', TimeV a),
      (''recent_count'', IntV (int (length (recent_items w)))),
      (''historical_count'', IntV (int (length (historical_items w)))),
      (''total_count'', IntV (int n)),
      (''recent_edges_count'', IntV (int (length (recent_edges w)))),
      (''historical_edges_count'', IntV (int (length (historical_edges w)))),
      (''mode'', StrV ''fallback'')]"
  by (simp add: make_stats_def)

lemma analyse_small_window:
  assumes "length (recent_items (scan_windows rt ht iwt)) < 5 \<or>
           length (historical_items (scan_windows rt ht iwt)) < 5"
  shows "analyse set_iter items iwt a rt ht top_n =
           (map fallback_entry (most_common top_n (all_edges (scan_windows rt ht iwt))),
            AList.update ''mode'' (StrV ''fallback'')
              (make_stats a (length iwt) (scan_windows rt ht iwt)))"
  unfolding analyse_def Let_def fallback_top_edges_def using assms by simp

lemma analyse_no_rising:
  assumes "5 \<le> length (recent_items (scan_windows rt ht iwt))"
    and "5 \<le> length (historical_items (scan_windows rt ht iwt))"
    and "sorted_rising_edges set_iter (scan_windows rt ht iwt) = []"
  shows "analyse set_iter items iwt a rt ht top_n =
           (map fallback_entry (most_common top_n (all_edges (scan_windows rt ht iwt))),
            AList.update ''mode'' (StrV ''fallback'')
              (make_stats a (length iwt) (scan_windows rt ht iwt)))"
  unfolding analyse_def Let_def fallback_top_edges_def using assms by simp

lemma analyse_rising:
  assumes "5 \<le> length (recent_items (scan_windows rt ht iwt))"
    and "5 \<le> length (historical_items (scan_windows rt ht iwt))"
    and "sorted_rising_edges set_iter (scan_windows rt ht iwt) \<noteq> []"
  shows "analyse set_iter items iwt a rt ht top_n =
           (slice_to top_n (sorted_rising_edges set_iter (scan_windows rt ht iwt)),
            make_stats a (length iwt) (scan_windows rt ht iwt))"
  unfolding analyse_def Let_def using assms by simp

lemma most_common_sorted: "sorted_wrt (\<lambda>p q. snd q \<le> snd p) (most_common n c)"
proof -
  have "sorted (map (\<lambda>p. - int (snd p)) (sort_key (\<lambda>p. - int (snd p)) c))"
    by (rule sorted_sort_key)
  then have "sorted_wrt (\<lambda>p q. snd q \<le> snd p) (sort_key (\<lambda>p. - int (snd p)) c)"
    by (simp add: sorted_map)
  then show ?thesis unfolding most_common_def by (rule sorted_wrt_take)
qed

lemma most_common_subset: "set (most_common n c) \<subseteq> set c"
  using set_take_subset [of "nat n" "sort_key (\<lambda>p. - int (snd p)) c"]
  by (simp add: most_common_def)

lemma most_common_length: "length (most_common n c) = min (nat n) (length c)"
  by (simp add: most_common_def min.commute)

lemma most_common_distinct:
  assumes "distinct (map fst c)"
  shows "distinct (map fst (most_common n c))"
proof -
  have "distinct c" "inj_on fst (set c)" using assms by (simp_all add: distinct_map)
  then have "distinct (map fst (sort_key (\<lambda>p. - int (snd p)) c))"
    by (simp add: distinct_map)
  then show ?thesis by (simp add: most_common_def take_map [symmetric] del: take_map)
qed

lemma most_common_top:
  assumes "p \<in> set c" and "p \<notin> set (most_common n c)" and "q \<in> set (most_common n c)"
  shows "snd p \<le> snd q"
proof -
  let ?L = "sort_key (\<lambda>p. - int (snd p)) c"
  have "sorted (map (\<lambda>p. - int (snd p)) ?L)" by (rule sorted_sort_key)
  then have "sorted_wrt (\<lambda>p q. snd q \<le> snd p) (take (nat n) ?L @ drop (nat n) ?L)"
    by (simp add: sorted_map)
  then have cross: "\<forall>x\<in>set (take (nat n) ?L). \<forall>y\<in>set (drop (nat n) ?L). snd y \<le> snd x"
    unfolding sorted_wrt_append by blast
  have "p \<in> set (take (nat n) ?L @ drop (nat n) ?L)" using assms(1) by simp
  then have "p \<in> set (drop (nat n) ?L)"
    using assms(2) unfolding most_common_def set_append by blast
  then show ?thesis using cross assms(3) unfolding most_common_def by blast
qed

lemma pair_count_pos: "0 < pair_count its e \<longleftrightarrow> (\<exists>it\<in>set its. e \<in> set (tag_pairs (tags it)))"
proof -
  have "0 < pair_count its e \<longleftrightarrow> (\<exists>it\<in>set its. 0 < count_list (tag_pairs (tags it)) e)"
    unfolding pair_count_def by (induction its) auto
  also have "\<dots> \<longleftrightarrow> (\<exists>it\<in>set its. e \<in> set (tag_pairs (tags it)))"
    using count_list_0_iff [of _ e] by (metis gr0I less_numeral_extra(3))
  finally show ?thesis .
qed

lemma scan_all_edges_key_iff:
  "e \<in> fst ` set (all_edges (scan_windows rt ht iwt)) \<longleftrightarrow> 0 < pair_count (map fst iwt) e"
  by (auto simp: scan_all_edges_keys pair_count_pos)

lemma scan_all_edges_entry:
  assumes "p \<in> set (all_edges (scan_windows rt ht iwt))"
  shows "snd p = pair_count (map fst iwt) (fst p) \<and> 0 < snd p"
proof -
  have "(fst p, snd p) \<in> set (all_edges (scan_windows rt ht iwt))" using assms by simp
  then have "counter_get (all_edges (scan_windows rt ht iwt)) (fst p) = snd p"
    using scan_distinct(1) counter_get_entry by fastforce
  then have eq: "snd p = pair_count (map fst iwt) (fst p)"
    by (simp add: scan_all_edges_pair_count)
  have "fst p \<in> fst ` set (all_edges (scan_windows rt ht iwt))" using assms by simp
  then have "0 < pair_count (map fst iwt) (fst p)" by (simp only: scan_all_edges_key_iff)
  then show ?thesis using eq by simp
qed

lemma scan_all_edges_length:
  "length (all_edges (scan_windows rt ht iwt)) = card {e. 0 < pair_count (map fst iwt) e}"
proof -
  have "{e. 0 < pair_count (map fst iwt) e} = set (map fst (all_edges (scan_windows rt ht iwt)))"
    using scan_all_edges_key_iff [of _ rt ht iwt] by auto
  then show ?thesis using distinct_card [OF scan_distinct(1) [of rt ht iwt]] by simp
qed

lemma small_window_items:
  assumes "length (filter (in_recent rt) iwt) < 5 \<or> length (filter (in_historical rt ht) iwt) < 5"
  shows "length (recent_items (scan_windows rt ht iwt)) < 5 \<or>
         length (historical_items (scan_windows rt ht iwt)) < 5"
proof -
  have "length (filter (\<lambda>p. 2 \<le> length (tags (fst p)) \<and> P p) iwt) \<le> length (filter P iwt)" for P
    by (induction iwt) auto
  then have "length (recent_items (scan_windows rt ht iwt)) \<le> length (filter (in_recent rt) iwt)"
    and "length (historical_items (scan_windows rt ht iwt)) \<le> length (filter (in_historical rt ht) iwt)"
    by (simp_all add: scan_recent_items scan_historical_items)
  then show ?thesis using assms by linarith
qed

text \<open>What every fallback through the window counters returns.\<close>

lemma fallback_top_properties:
  fixes best :: "(edge \<times> nat) list"
  assumes best_def: "best = most_common top_n (all_edges (scan_windows rt ht iwt))"
  shows "length best = min (nat top_n) (card {e. 0 < pair_count (map fst iwt) e})"
    and "distinct (map fst best)"
    and "sorted_wrt (\<lambda>p q. snd q \<le> snd p) best"
    and "\<forall>p\<in>set best. snd p = pair_count (map fst iwt) (fst p) \<and> 0 < snd p"
    and "\<forall>e. e \<notin> set (map fst best) \<longrightarrow> (\<forall>q\<in>set best. pair_count (map fst iwt) e \<le> snd q)"
proof -
  let ?c = "all_edges (scan_windows rt ht iwt)"
  show "length best = min (nat top_n) (card {e. 0 < pair_count (map fst iwt) e})"
    unfolding best_def by (simp add: most_common_length scan_all_edges_length)
  show "distinct (map fst best)"
    unfolding best_def using scan_distinct(1) by (rule most_common_distinct)
  show "sorted_wrt (\<lambda>p q. snd q \<le> snd p) best"
    unfolding best_def by (rule most_common_sorted)
  show "\<forall>p\<in>set best. snd p = pair_count (map fst iwt) (fst p) \<and> 0 < snd p"
    unfolding best_def using most_common_subset [of top_n ?c] scan_all_edges_entry by blast
  show "\<forall>e. e \<notin> set (map fst best) \<longrightarrow> (\<forall>q\<in>set best. pair_count (map fst iwt) e \<le> snd q)"
  proof (intro allI impI ballI)
    fix e q assume e: "e \<notin> set (map fst best)" and q: "q \<in> set best"
    show "pair_count (map fst iwt) e \<le> snd q"
    proof (cases "0 < pair_count (map fst iwt) e")
      case False
      then show ?thesis by simp
    next
      case True
      then have "e \<in> fst ` set ?c" by (simp only: scan_all_edges_key_iff)
      then obtain n where n: "(e, n) \<in> set ?c" by force
      then have neq: "n = pair_count (map fst iwt) e"
        using scan_all_edges_entry [OF n] by simp
      have "(e, n) \<notin> set best" using e by force
      then have "snd (e, n) \<le> snd q"
        using most_common_top [of "(e, n)" ?c top_n q] n q unfolding best_def by blast
      then show ?thesis using neq by simp
    qed
  qed
qed

section \<open>Claims about the trend analysis\<close>

text \<open>
  C5 (as amended). Let the records with a timestamp be non-empty and the anchor and both
  thresholds be computed. If fewer than 5 of these records lie in the recent window, or
  fewer than 5 in the historical window, then \<^verbatim>\<open>find_rising_edges\<close> returns, with \<^verbatim>\<open>mode\<close>
  set to \<^verbatim>\<open>fallback\<close>, the \<^verbatim>\<open>top_n\<close> pairs of greatest weight over the timestamped records:
  distinct pairs, in descending order of weight, none lighter than a pair left out, each
  with the score 0 and the details \<^verbatim>\<open>total_count\<close> (its weight) and
  \<^verbatim>\<open>fallback_reason = insufficient_window_samples\<close>. The weight counts a pair once for
  every occurrence of its first and every occurrence of its second tag in a record; where
  no record repeats a tag it is the number of timestamped records that hold both tags.
\<close>

theorem insufficient_window_fallback:
  assumes "items_with_time items \<noteq> []"
    and "window_bounds (map snd (items_with_time items)) recent_days historical_days =
           Inr (anchor_now, rt, ht)"
    and "length (filter (in_recent rt) (items_with_time items)) < 5 \<or>
         length (filter (in_historical rt ht) (items_with_time items)) < 5"
  shows "\<exists>best stats.
     find_rising_edges set_iter items recent_days historical_days top_n =
       Inr (map (\<lambda>p. (fst (fst p), snd (fst p), 0,
                       [(''total_count'', IntV (int (snd p))),
                        (''fallback_reason'', StrV ''insufficient_window_samples'')])) best,
            stats) \<and>
     map_of stats ''mode'' = Some (StrV ''fallback'') \<and>
     length best =
       min (nat top_n) (card {e. 0 < pair_weight (map fst (items_with_time items)) e}) \<and>
     distinct (map fst best) \<and>
     sorted_wrt (\<lambda>p q. snd q \<le> snd p) best \<and>
     (\<forall>p\<in>set best. snd p = pair_weight (map fst (items_with_time items)) (fst p) \<and> 0 < snd p) \<and>
     (\<forall>e. e \<notin> set (map fst best) \<longrightarrow>
        (\<forall>q\<in>set best. pair_weight (map fst (items_with_time items)) e \<le> snd q)) \<and>
     ((\<forall>it\<in>set items. distinct (tags it)) \<longrightarrow>
        (\<forall>p\<in>set best.
           fst (fst p) < snd (fst p) \<and>
           snd p = length (filter (\<lambda>it. fst (fst p) \<in> set (tags it) \<and> snd (fst p) \<in> set (tags it))
                     (map fst (items_with_time items)))))"
proof -
  let ?iwt = "items_with_time items"
  let ?w = "scan_windows rt ht ?iwt"
  let ?best = "most_common top_n (all_edges ?w)"
  let ?stats = "AList.update ''mode'' (StrV ''fallback'') (make_stats anchor_now (length ?iwt) ?w)"
  have small: "length (recent_items ?w) < 5 \<or> length (historical_items ?w) < 5"
    using assms(3) by (rule small_window_items)
  have "find_rising_edges set_iter items recent_days historical_days top_n =
          Inr (map fallback_entry ?best, ?stats)"
    using find_rising_edges_windows [OF assms(1,2)] analyse_small_window [OF small] by simp
  then have res: "find_rising_edges set_iter items recent_days historical_days top_n =
       Inr (map (\<lambda>p. (fst (fst p), snd (fst p), 0,
                       [(''total_count'', IntV (int (snd p))),
                        (''fallback_reason'', StrV ''insufficient_window_samples'')])) ?best,
            ?stats)"
    by (simp add: fallback_entry_def [abs_def])
  have mode: "map_of ?stats ''mode'' = Some (StrV ''fallback'')"
    by (simp add: update_conv')
  note props = fallback_top_properties [of ?best top_n rt ht ?iwt, unfolded pair_count_weight, OF refl]
  have records: "\<forall>p\<in>set ?best.
           fst (fst p) < snd (fst p) \<and>
           snd p = length (filter (\<lambda>it. fst (fst p) \<in> set (tags it) \<and> snd (fst p) \<in> set (tags it))
                     (map fst ?iwt))"
    if dist: "\<forall>it\<in>set items. distinct (tags it)"
  proof
    fix p assume p: "p \<in> set ?best"
    have d: "\<forall>it\<in>set (map fst ?iwt). distinct (tags it)"
      using dist by (auto simp: items_with_time_mem)
    have "snd p = pair_weight (map fst ?iwt) (fst p) \<and> 0 < snd p"
      using props(4) p by blast
    then have w: "snd p = pair_weight (map fst ?iwt) (fst (fst p), snd (fst p))"
      and pos: "0 < snd p"
      by simp_all
    show "fst (fst p) < snd (fst p) \<and>
           snd p = length (filter (\<lambda>it. fst (fst p) \<in> set (tags it) \<and> snd (fst p) \<in> set (tags it))
                     (map fst ?iwt))"
      using w pos pair_weight_distinct [OF d, of "fst (fst p)" "snd (fst p)"]
      by (simp split: if_splits)
  qed
  show ?thesis
    using res mode props records by blast
qed

text \<open>
  C5, witness: three timestamped records without repeated tags, two of them in the recent
  window of 7 days, and \<^verbatim>\<open>top_n = 1\<close>: the pair \<open>(a, b)\<close> of weight 2 is returned, before
  \<open>(b, c)\<close> of weight 1.
\<close>

theorem insufficient_window_fallback_witness:
  "items_with_time short_records \<noteq> [] \<and>
   window_bounds (map snd (items_with_time short_records)) 7 30 =
     Inr (day 738885, day 738878, day 738848) \<and>
   length (filter (in_recent (day 738878)) (items_with_time short_records)) < 5 \<and>
   find_rising_edges remdups short_records 7 30 1 =
     Inr ([(''a'', ''b'', 0,
            [(''total_count'', IntV 2),
             (''fallback_reason'', StrV ''insufficient_window_samples'')])],
          [(''anchor_now'', TimeV (day 738885)),
           (''recent_count'', IntV 2),
           (''historical_count'', IntV 1),
           (''total_count'', IntV 3),
           (''recent_edges_count'', IntV 1),
           (''historical_edges_count'', IntV 1),
           (''mode'', StrV ''fallback'')]) \<and>
   pair_weight (map fst (items_with_time short_records)) (''a'', ''b'') = 2 \<and>
   pair_weight (map fst (items_with_time short_records)) (''b'', ''c'') = 1 \<and>
   (\<exists>best stats.
      find_rising_edges remdups short_records 7 30 1 =
        Inr (map (\<lambda>p. (fst (fst p), snd (fst p), 0,
                       [(''total_count'', IntV (int (snd p))),
                        (''fallback_reason'', StrV ''insufficient_window_samples'')])) best,
             stats) \<and>
      map_of stats ''mode'' = Some (StrV ''fallback'') \<and>
      length best =
        min (nat 1) (card {e. 0 < pair_weight (map fst (items_with_time short_records)) e}) \<and>
      distinct (map fst best) \<and>
      sorted_wrt (\<lambda>p q. snd q \<le> snd p) best \<and>
      (\<forall>p\<in>set best.
         snd p = pair_weight (map fst (items_with_time short_records)) (fst p) \<and> 0 < snd p) \<and>
      (\<forall>e. e \<notin> set (map fst best) \<longrightarrow>
         (\<forall>q\<in>set best. pair_weight (map fst (items_with_time short_records)) e \<le> snd q)) \<and>
      ((\<forall>it\<in>set short_records. distinct (tags it)) \<longrightarrow>
         (\<forall>p\<in>set best.
            fst (fst p) < snd (fst p) \<and>
            snd p = length (filter (\<lambda>it. fst (fst p) \<in> set (tags it) \<and> snd (fst p) \<in> set (tags it))
                      (map fst (items_with_time short_records))))))"
proof -
  have h1: "items_with_time short_records \<noteq> []" by code_simp
  have h2: "window_bounds (map snd (items_with_time short_records)) 7 30 =
      Inr (day 738885, day 738878, day 738848)" by code_simp
  have h3: "length (filter (in_recent (day 738878)) (items_with_time short_records)) < 5"
    by code_simp
  then have h3': "length (filter (in_recent (day 738878)) (items_with_time short_records)) < 5 \<or>
      length (filter (in_historical (day 738878) (day 738848)) (items_with_time short_records)) < 5"
    by (rule disjI1)
  have res: "find_rising_edges remdups short_records 7 30 1 =
     Inr ([(''a'', ''b'', 0,
            [(''total_count'', IntV 2),
             (''fallback_reason'', StrV ''insufficient_window_samples'')])],
          [(''anchor_now'', TimeV (day 738885)),
           (''recent_count'', IntV 2),
           (''historical_count'', IntV 1),
           (''total_count'', IntV 3),
           (''recent_edges_count'', IntV 1),
           (''historical_edges_count'', IntV 1),
           (''mode'', StrV ''fallback'')])" by code_simp
  have w1: "pair_weight (map fst (items_with_time short_records)) (''a'', ''b'') = 2"
    by code_simp
  have w2: "pair_weight (map fst (items_with_time short_records)) (''b'', ''c'') = 1"
    by code_simp
  note concl = insufficient_window_fallback [OF h1 h2 h3', of remdups 1]
  show ?thesis by (intro conjI h1 h2 h3 res w1 w2 concl)
qed

text \<open>
  C5, counterexample: of three records, one holds \<open>a\<close> and \<open>b\<close> (each twice) and two hold
  \<open>c\<close> and \<open>d\<close>. With \<^verbatim>\<open>top_n = 1\<close> the fallback returns \<open>(a, b)\<close> with the count 4, not the
  pair \<open>(c, d)\<close> that co-occurs in more records.
\<close>

theorem repeated_tags_outrank_frequent_pair:
  "find_rising_edges remdups repeating_records 7 30 1 =
     Inr ([(''a'', ''b'', 0,
            [(''total_count'', IntV 4),
             (''fallback_reason'', StrV ''insufficient_window_samples'')])],
          [(''anchor_now'', TimeV (day 738885)),
           (''recent_count'', IntV 3),
           (''historical_count'', IntV 0),
           (''total_count'', IntV 3),
           (''recent_edges_count'', IntV 4),
           (''historical_edges_count'', IntV 0),
           (''mode'', StrV ''fallback'')]) \<and>
   length (filter (\<lambda>it. ''a'' \<in> set (tags it) \<and> ''b'' \<in> set (tags it)) repeating_records) = 1 \<and>
   length (filter (\<lambda>it. ''c'' \<in> set (tags it) \<and> ''d'' \<in> set (tags it)) repeating_records) = 2"
  by code_simp

lemma make_stats_mode: "map_of (make_stats a n w) ''mode'' = Some (StrV ''rising'')"
  by (simp add: make_stats_def)

lemma fallback_stats_keys:
  "map fst (AList.update ''mode'' (StrV ''fallback'') (make_stats a n w)) = map fst (make_stats a n w)"
  by (simp add: make_stats_def)

lemma fallback_stats_frame:
  "k \<noteq> ''mode'' \<Longrightarrow>
     map_of (AList.update ''mode'' (StrV ''fallback'') (make_stats a n w)) k = map_of (make_stats a n w) k"
  by (simp add: update_conv')

text \<open>
  C10. When \<^verbatim>\<open>find_rising_edges\<close> has computed the windows and returns with \<^verbatim>\<open>mode\<close> equal
  to \<^verbatim>\<open>fallback\<close> (through either guard), the returned \<^verbatim>\<open>window_stats\<close> holds the anchor,
  the two record counts, the total count and the two edge counts as computed from the
  windows: it has the keys of the dictionary built before the guards, in their order, and
  agrees with it at every key but \<^verbatim>\<open>mode\<close>.
\<close>

theorem fallback_keeps_window_stats:
  assumes "items_with_time items \<noteq> []"
    and "window_bounds (map snd (items_with_time items)) recent_days historical_days =
           Inr (anchor_now, rt, ht)"
    and "find_rising_edges set_iter items recent_days historical_days top_n = Inr (es, stats)"
    and "map_of stats ''mode'' = Some (StrV ''fallback'')"
  shows "stats =
      [(''anchor_now'', TimeV anchor_now),
       (''recent_count'',
          IntV (int (length (recent_items (scan_windows rt ht (items_with_time items)))))),
       (''historical_count'',
          IntV (int (length (historical_items (scan_windows rt ht (items_with_time items)))))),
       (''total_count'', IntV (int (length (items_with_time items)))),
       (''recent_edges_count'',
          IntV (int (length (recent_edges (scan_windows rt ht (items_with_time items)))))),
       (''historical_edges_count'',
          IntV (int (length (historical_edges (scan_windows rt ht (items_with_time items)))))),
       (''mode'', StrV ''fallback'')] \<and>
    map fst stats =
      map fst (make_stats anchor_now (length (items_with_time items))
                 (scan_windows rt ht (items_with_time items))) \<and>
    (\<forall>k. k \<noteq> ''mode'' \<longrightarrow>
       map_of stats k =
         map_of (make_stats anchor_now (length (items_with_time items))
                   (scan_windows rt ht (items_with_time items))) k)"
proof -
  let ?iwt = "items_with_time items"
  let ?w = "scan_windows rt ht ?iwt"
  let ?ms = "make_stats anchor_now (length ?iwt) ?w"
  have an: "analyse set_iter items ?iwt anchor_now rt ht top_n = (es, stats)"
    using find_rising_edges_windows [OF assms(1,2), of set_iter top_n] assms(3) by simp
  have "stats = AList.update ''mode'' (StrV ''fallback'') ?ms"
  proof (cases "length (recent_items ?w) < 5 \<or> length (historical_items ?w) < 5")
    case True
    then show ?thesis using analyse_small_window [OF True, of set_iter items anchor_now top_n] an
      by simp
  next
    case False
    then have big: "5 \<le> length (recent_items ?w)" "5 \<le> length (historical_items ?w)" by simp_all
    show ?thesis
    proof (cases "sorted_rising_edges set_iter ?w = []")
      case True
      then show ?thesis
        using analyse_no_rising [OF big True, of items anchor_now top_n] an by simp
    next
      case False
      then have "stats = ?ms"
        using analyse_rising [OF big False, of items anchor_now top_n] an by simp
      then show ?thesis using assms(4) by (simp add: make_stats_mode)
    qed
  qed
  then show ?thesis
    using fallback_stats_frame [of _ anchor_now "length ?iwt" ?w]
      fallback_stats_keys [of anchor_now "length ?iwt" ?w]
    by (simp add: update_mode_make_stats)
qed

text \<open>
  C10, witness: two recent records; the first guard falls back and the statistics keep
  their keys.
\<close>

theorem fallback_keeps_window_stats_witness:
  "items_with_time sparse_records \<noteq> [] \<and>
   window_bounds (map snd (items_with_time sparse_records)) 7 30 =
     Inr (day 738885, day 738878, day 738848) \<and>
   find_rising_edges remdups sparse_records 7 30 10 =
     Inr ([(''a'', ''b'', 0,
            [(''total_count'', IntV 1), (''fallback_reason'', StrV ''insufficient_window_samples'')]),
           (''b'', ''c'', 0,
            [(''total_count'', IntV 1), (''fallback_reason'', StrV ''insufficient_window_samples'')])],
          [(''anchor_now'', TimeV (day 738885)),
           (''recent_count'', IntV 2),
           (''historical_count'', IntV 0),
           (''total_count'', IntV 2),
           (''recent_edges_count'', IntV 2),
           (''historical_edges_count'', IntV 0),
           (''mode'', StrV ''fallback'')]) \<and>
   map fst [(''anchor_now'', TimeV (day 738885)),
            (''recent_count'', IntV 2),
            (''historical_count'', IntV 0),
            (''total_count'', IntV 2),
            (''recent_edges_count'', IntV 2),
            (''historical_edges_count'', IntV 0),
            (''mode'', StrV ''fallback'')] =
     map fst (make_stats (day 738885) (length (items_with_time sparse_records))
                (scan_windows (day 738878) (day 738848) (items_with_time sparse_records)))"
proof -
  let ?es = "[(''a'', ''b'', 0::rat,
            [(''total_count'', IntV 1), (''fallback_reason'', StrV ''insufficient_window_samples'')]),
           (''b'', ''c'', 0,
            [(''total_count'', IntV 1), (''fallback_reason'', StrV ''insufficient_window_samples'')])]"
  let ?stats = "[(''anchor_now'', TimeV (day 738885)),
           (''recent_count'', IntV 2),
           (''historical_count'', IntV 0),
           (''total_count'', IntV 2),
           (''recent_edges_count'', IntV 2),
           (''historical_edges_count'', IntV 0),
           (''mode'', StrV ''fallback'')]"
  have h1: "items_with_time sparse_records \<noteq> []" by code_simp
  have h2: "window_bounds (map snd (items_with_time sparse_records)) 7 30 =
      Inr (day 738885, day 738878, day 738848)" by code_simp
  have h3: "find_rising_edges remdups sparse_records 7 30 10 = Inr (?es, ?stats)" by code_simp
  have h4: "map_of ?stats ''mode'' = Some (StrV ''fallback'')" by simp
  note concl = fallback_keeps_window_stats [OF h1 h2 h3 h4]
  show ?thesis by (intro conjI h1 h2 h3 conjunct1 [OF conjunct2 [OF concl]])
qed

text \<open>
  C4 (as amended). When both windows hold at least 5 counted records and no pair has a
  positive growth with a recent weight of at least 2, \<^verbatim>\<open>find_rising_edges\<close> falls back with
  \<^verbatim>\<open>mode\<close> equal to \<^verbatim>\<open>fallback\<close> and returns the most frequent pairs as in C5; every entry
  carries the reason \<^verbatim>\<open>insufficient_window_samples\<close>, the same as after the first guard, and
  the statistics hold no reason of their own.
\<close>

theorem no_rising_edges_fallback:
  assumes "items_with_time items \<noteq> []"
    and "window_bounds (map snd (items_with_time items)) recent_days historical_days =
           Inr (anchor_now, rt, ht)"
    and "5 \<le> length (recent_items (scan_windows rt ht (items_with_time items)))"
    and "5 \<le> length (historical_items (scan_windows rt ht (items_with_time items)))"
    and "\<forall>e. \<not> (0 < growth (counter_get (recent_edges (scan_windows rt ht (items_with_time items))) e)
                         (counter_get (historical_edges (scan_windows rt ht (items_with_time items))) e) \<and>
               2 \<le> counter_get (recent_edges (scan_windows rt ht (items_with_time items))) e)"
  shows "\<exists>best stats.
     find_rising_edges set_iter items recent_days historical_days top_n =
       Inr (map (\<lambda>p. (fst (fst p), snd (fst p), 0,
                       [(''total_count'', IntV (int (snd p))),
                        (''fallback_reason'', StrV ''insufficient_window_samples'')])) best,
            stats) \<and>
     map_of stats ''mode'' = Some (StrV ''fallback'') \<and>
     map_of stats ''fallback_reason'' = None \<and>
     length best =
       min (nat top_n) (card {e. 0 < pair_count (map fst (items_with_time items)) e}) \<and>
     distinct (map fst best) \<and>
     sorted_wrt (\<lambda>p q. snd q \<le> snd p) best \<and>
     (\<forall>p\<in>set best. snd p = pair_count (map fst (items_with_time items)) (fst p) \<and> 0 < snd p) \<and>
     (\<forall>e. e \<notin> set (map fst best) \<longrightarrow>
        (\<forall>q\<in>set best. pair_count (map fst (items_with_time items)) e \<le> snd q))"
proof -
  let ?iwt = "items_with_time items"
  let ?w = "scan_windows rt ht ?iwt"
  let ?best = "most_common top_n (all_edges ?w)"
  let ?stats = "AList.update ''mode'' (StrV ''fallback'') (make_stats anchor_now (length ?iwt) ?w)"
  have "rising_entry ?w e = []" for e
    using spec [OF assms(5), of e] by (simp add: rising_entry_def Let_def)
  then have "unsorted_rising_edges set_iter ?w = []"
    by (simp add: unsorted_rising_edges_def)
  then have none: "sorted_rising_edges set_iter ?w = []"
    by (simp add: sorted_rising_edges_def)
  have "find_rising_edges set_iter items recent_days historical_days top_n =
          Inr (map fallback_entry ?best, ?stats)"
    using find_rising_edges_windows [OF assms(1,2)] analyse_no_rising [OF assms(3,4) none] by simp
  then have res: "find_rising_edges set_iter items recent_days historical_days top_n =
       Inr (map (\<lambda>p. (fst (fst p), snd (fst p), 0,
                       [(''total_count'', IntV (int (snd p))),
                        (''fallback_reason'', StrV ''insufficient_window_samples'')])) ?best,
            ?stats)"
    by (simp add: fallback_entry_def [abs_def])
  have mode: "map_of ?stats ''mode'' = Some (StrV ''fallback'')"
    "map_of ?stats ''fallback_reason'' = None"
    by (simp_all add: update_conv' make_stats_def)
  show ?thesis
    using res mode fallback_top_properties [of ?best top_n rt ht ?iwt] by blast
qed

text \<open>
  C4, witness: five records at the anchor and five in the historical window, all with
  the same pair of tags, whose growth is therefore 0.
\<close>

theorem no_rising_edges_fallback_witness:
  "items_with_time flat_records \<noteq> [] \<and>
   window_bounds (map snd (items_with_time flat_records)) 7 30 =
     Inr (day 738885, day 738878, day 738848) \<and>
   5 \<le> length (recent_items
          (scan_windows (day 738878) (day 738848) (items_with_time flat_records))) \<and>
   5 \<le> length (historical_items
          (scan_windows (day 738878) (day 738848) (items_with_time flat_records))) \<and>
   (\<exists>best stats.
      find_rising_edges remdups flat_records 7 30 10 =
        Inr (map (\<lambda>p. (fst (fst p), snd (fst p), 0,
                       [(''total_count'', IntV (int (snd p))),
                        (''fallback_reason'', StrV ''insufficient_window_samples'')])) best,
             stats) \<and>
      map_of stats ''mode'' = Some (StrV ''fallback'') \<and>
      map_of stats ''fallback_reason'' = None \<and>
      length best =
        min (nat 10) (card {e. 0 < pair_count (map fst (items_with_time flat_records)) e}) \<and>
      distinct (map fst best) \<and>
      sorted_wrt (\<lambda>p q. snd q \<le> snd p) best \<and>
      (\<forall>p\<in>set best.
         snd p = pair_count (map fst (items_with_time flat_records)) (fst p) \<and> 0 < snd p) \<and>
      (\<forall>e. e \<notin> set (map fst best) \<longrightarrow>
         (\<forall>q\<in>set best. pair_count (map fst (items_with_time flat_records)) e \<le> snd q)))"
proof -
  let ?w = "scan_windows (day 738878) (day 738848) (items_with_time flat_records)"
  have h1: "items_with_time flat_records \<noteq> []" by code_simp
  have h2: "window_bounds (map snd (items_with_time flat_records)) 7 30 =
      Inr (day 738885, day 738878, day 738848)" by code_simp
  have h3: "5 \<le> length (recent_items ?w)" by code_simp
  have h4: "5 \<le> length (historical_items ?w)" by code_simp
  have r: "recent_edges ?w = [((''a'', ''b''), 5)]" by code_simp
  have h: "historical_edges ?w = [((''a'', ''b''), 5)]" by code_simp
  have "growth n n = 0" for n by (simp add: growth_def)
  then have h5: "\<forall>e. \<not> (0 < growth (counter_get (recent_edges ?w) e)
                         (counter_get (historical_edges ?w) e) \<and>
               2 \<le> counter_get (recent_edges ?w) e)"
    unfolding r h by simp
  note concl = no_rising_edges_fallback [OF h1 h2 h3 h4 h5, of remdups 10]
  show ?thesis by (intro conjI h1 h2 h3 h4 concl)
qed

text \<open>
  C4, counterexample: on these ten records both windows hold 5 records and no pair rises,
  yet the reason that is reported is \<^verbatim>\<open>insufficient_window_samples\<close>, not a reason of its
  own.
\<close>

theorem no_rising_edges_reason_is_insufficient_samples:
  "find_rising_edges remdups flat_records 7 30 10 =
     Inr ([(''a'', ''b'', 0,
            [(''total_count'', IntV 10),
             (''fallback_reason'', StrV ''insufficient_window_samples'')])],
          [(''anchor_now'', TimeV (day 738885)),
           (''recent_count'', IntV 5),
           (''historical_count'', IntV 5),
           (''total_count'', IntV 10),
           (''recent_edges_count'', IntV 1),
           (''historical_edges_count'', IntV 1),
           (''mode'', StrV ''fallback'')])"
proof -
  let ?w = "scan_windows (day 738878) (day 738848) (items_with_time flat_records)"
  have h1: "items_with_time flat_records \<noteq> []" by code_simp
  have h2: "window_bounds (map snd (items_with_time flat_records)) 7 30 =
      Inr (day 738885, day 738878, day 738848)" by code_simp
  have h3: "5 \<le> length (recent_items ?w)" by code_simp
  have h4: "5 \<le> length (historical_items ?w)" by code_simp
  have none: "sorted_rising_edges remdups ?w = []" by code_simp
  have es: "map fallback_entry (most_common 10 (all_edges ?w)) =
      [(''a'', ''b'', 0,
            [(''total_count'', IntV 10),
             (''fallback_reason'', StrV ''insufficient_window_samples'')])]" by code_simp
  have stats: "AList.update ''mode'' (StrV ''fallback'')
       (make_stats (day 738885) (length (items_with_time flat_records)) ?w) =
          [(''anchor_now'', TimeV (day 738885)),
           (''recent_count'', IntV 5),
           (''historical_count'', IntV 5),
           (''total_count'', IntV 10),
           (''recent_edges_count'', IntV 1),
           (''historical_edges_count'', IntV 1),
           (''mode'', StrV ''fallback'')]" by code_simp
  show ?thesis
    unfolding find_rising_edges_windows [OF h1 h2] analyse_no_rising [OF h3 h4 none] es stats
    by (rule refl)
qed

text \<open>
  C3 (the code departs from the claim). The collection is non-empty and its second record
  holds the two distinct tags \<open>a\<close> and \<open>b\<close>, but that record has no timestamp while the first,
  timestamped one holds a single tag: the pair counter of the window loop only covers the
  timestamped records, and the edge list that is returned is empty. Without any timestamp
  the fallback counts all records and returns the pair.
\<close>

theorem silent_empty_result:
  "find_rising_edges remdups [post (Some (day 738885)) [''a''], post None [''a'', ''b'']] 7 30 10 =
     Inr ([],
          [(''anchor_now'', TimeV (day 738885)),
           (''recent_count'', IntV 0),
           (''historical_count'', IntV 0),
           (''total_count'', IntV 1),
           (''recent_edges_count'', IntV 0),
           (''historical_edges_count'', IntV 0),
           (''mode'', StrV ''fallback'')]) \<and>
   find_rising_edges remdups [post None [''a''], post None [''a'', ''b'']] 7 30 10 =
     Inr ([(''a'', ''b'', 0,
            [(''total_count'', IntV 1), (''fallback_reason'', StrV ''insufficient_window_samples'')])],
          [(''anchor_now'', StrV ''N/A''),
           (''recent_count'', IntV 0),
           (''historical_count'', IntV 0),
           (''total_count'', IntV 2),
           (''mode'', StrV ''fallback'')])"
  by code_simp

section \<open>The rising mode\<close>

lemma set_slice_to: "set (slice_to n xs) \<subseteq> set xs"
  by (auto simp: slice_to_def dest: in_set_takeD)

lemma sorted_wrt_slice_to: "sorted_wrt R xs \<Longrightarrow> sorted_wrt R (slice_to n xs)"
  by (simp add: slice_to_def sorted_wrt_take)

lemma default_stats_mode: "map_of (default_stats items) ''mode'' = Some (StrV ''fallback'')"
  by (simp add: default_stats_def)

lemma fallback_stats_mode:
  "map_of (AList.update ''mode'' (StrV ''fallback'') (make_stats a n w)) ''mode'' =
     Some (StrV ''fallback'')"
  by (simp add: update_conv')

lemma rising_mode_result:
  assumes "window_bounds (map snd (items_with_time items)) rdays hdays = Inr (anchor_now, rt, ht)"
    and "find_rising_edges set_iter items rdays hdays top_n = Inr (es, stats)"
    and "map_of stats ''mode'' = Some (StrV ''rising'')"
  shows "es = slice_to top_n (sorted_rising_edges set_iter (scan_windows rt ht (items_with_time items)))"
    and "stats = make_stats anchor_now (length (items_with_time items))
                   (scan_windows rt ht (items_with_time items))"
    and "5 \<le> length (recent_items (scan_windows rt ht (items_with_time items)))"
    and "5 \<le> length (historical_items (scan_windows rt ht (items_with_time items)))"
proof -
  let ?iwt = "items_with_time items"
  let ?w = "scan_windows rt ht ?iwt"
  have ne: "?iwt \<noteq> []"
  proof
    assume "?iwt = []"
    then have "stats = default_stats items"
      using assms(2) by (simp add: find_rising_edges_def fallback_top_edges_def)
    then show False using assms(3) by (simp add: default_stats_mode)
  qed
  have an: "analyse set_iter items ?iwt anchor_now rt ht top_n = (es, stats)"
    using find_rising_edges_windows [OF ne assms(1), of set_iter top_n] assms(2) by simp
  have big: "\<not> (length (recent_items ?w) < 5 \<or> length (historical_items ?w) < 5)"
  proof
    assume small: "length (recent_items ?w) < 5 \<or> length (historical_items ?w) < 5"
    have "stats = AList.update ''mode'' (StrV ''fallback'') (make_stats anchor_now (length ?iwt) ?w)"
      using analyse_small_window [OF small, of set_iter items anchor_now top_n] an by simp
    then show False using assms(3) by (simp add: fallback_stats_mode)
  qed
  then show b1: "5 \<le> length (recent_items ?w)" and b2: "5 \<le> length (historical_items ?w)"
    by simp_all
  have some: "sorted_rising_edges set_iter ?w \<noteq> []"
  proof
    assume none: "sorted_rising_edges set_iter ?w = []"
    have "stats = AList.update ''mode'' (StrV ''fallback'') (make_stats anchor_now (length ?iwt) ?w)"
      using analyse_no_rising [OF b1 b2 none, of items anchor_now top_n] an by simp
    then show False using assms(3) by (simp add: fallback_stats_mode)
  qed
  show "es = slice_to top_n (sorted_rising_edges set_iter ?w)"
    and "stats = make_stats anchor_now (length ?iwt) ?w"
    using analyse_rising [OF b1 b2 some, of items anchor_now top_n] an by simp_all
qed

lemma rising_entry_mem:
  assumes "x \<in> set (rising_entry w e)"
  shows "x = (fst e, snd e,
              growth (counter_get (recent_edges w) e) (counter_get (historical_edges w) e),
              [(''recent_count'', IntV (int (counter_get (recent_edges w) e))),
               (''historical_count'', IntV (int (counter_get (historical_edges w) e))),
               (''growth_rate'',
                  FloatV (growth (counter_get (recent_edges w) e)
                            (counter_get (historical_edges w) e)))])"
    and "0 < growth (counter_get (recent_edges w) e) (counter_get (historical_edges w) e)"
    and "2 \<le> counter_get (recent_edges w) e"
  using assms by (auto simp: rising_entry_def Let_def split: if_splits)

lemma sorted_rising_edges_set:
  "set (sorted_rising_edges set_iter w) = set (unsorted_rising_edges set_iter w)"
  by (simp add: sorted_rising_edges_def)

lemma unsorted_rising_edges_mem:
  "x \<in> set (unsorted_rising_edges set_iter w) \<longleftrightarrow>
     (\<exists>e\<in>set (set_iter (map fst (recent_edges w) @ map fst (historical_edges w))).
        x \<in> set (rising_entry w e))"
  by (auto simp: unsorted_rising_edges_def)

lemma sorted_rising_edges_sorted:
  "sorted_wrt (\<lambda>x y. score y \<le> score x) (sorted_rising_edges set_iter w)"
proof -
  have "sorted (map (\<lambda>x. - score x) (sorted_rising_edges set_iter w))"
    unfolding sorted_rising_edges_def by (rule sorted_sort_key)
  then show ?thesis by (simp add: sorted_map)
qed

lemma sorted_rising_edges_stable:
  "filter (\<lambda>x. score x = g) (sorted_rising_edges set_iter w) =
     filter (\<lambda>x. score x = g) (unsorted_rising_edges set_iter w)"
proof -
  have "filter (\<lambda>x. - score x = - g) (sort_key (\<lambda>x. - score x) (unsorted_rising_edges set_iter w)) =
        filter (\<lambda>x. - score x = - g) (unsorted_rising_edges set_iter w)"
    by (rule sort_key_stable)
  then show ?thesis by (simp add: sorted_rising_edges_def)
qed

text \<open>The result on \<open>tied_records\<close> for two iteration orders of the set of pairs.\<close>

lemma tied_records_bounds:
  "window_bounds (map snd (items_with_time tied_records)) 7 30 =
     Inr (day 738885, day 738878, day 738848)"
  by code_simp

lemma tied_records_stats:
  "make_stats (day 738885) (length (items_with_time tied_records))
     (scan_windows (day 738878) (day 738848) (items_with_time tied_records)) =
     [(''anchor_now'', TimeV (day 738885)),
      (''recent_count'', IntV 7),
      (''historical_count'', IntV 5),
      (''total_count'', IntV 12),
      (''recent_edges_count'', IntV 2),
      (''historical_edges_count'', IntV 2),
      (''mode'', StrV ''rising'')]"
  by code_simp

lemma tied_records_remdups:
  "find_rising_edges remdups tied_records 7 30 10 =
     Inr ([(''a'', ''b'', 2,
            [(''recent_count'', IntV 2), (''historical_count'', IntV 0),
             (''growth_rate'', FloatV 2)]),
           (''c'', ''d'', 2,
            [(''recent_count'', IntV 5), (''historical_count'', IntV 1),
             (''growth_rate'', FloatV 2)])],
          [(''anchor_now'', TimeV (day 738885)),
           (''recent_count'', IntV 7),
           (''historical_count'', IntV 5),
           (''total_count'', IntV 12),
           (''recent_edges_count'', IntV 2),
           (''historical_edges_count'', IntV 2),
           (''mode'', StrV ''rising'')])"
proof -
  let ?w = "scan_windows (day 738878) (day 738848) (items_with_time tied_records)"
  have h1: "items_with_time tied_records \<noteq> []" by code_simp
  have h3: "5 \<le> length (recent_items ?w)" by code_simp
  have h4: "5 \<le> length (historical_items ?w)" by code_simp
  have srt: "sorted_rising_edges remdups ?w =
      [(''a'', ''b'', 2,
            [(''recent_count'', IntV 2), (''historical_count'', IntV 0),
             (''growth_rate'', FloatV 2)]),
           (''c'', ''d'', 2,
            [(''recent_count'', IntV 5), (''historical_count'', IntV 1),
             (''growth_rate'', FloatV 2)])]" by code_simp
  have some: "sorted_rising_edges remdups ?w \<noteq> []" unfolding srt by simp
  show ?thesis
    unfolding find_rising_edges_windows [OF h1 tied_records_bounds]
      analyse_rising [OF h3 h4 some] srt tied_records_stats
    by (simp add: slice_to_def)
qed

lemma tied_records_rev:
  "find_rising_edges (rev \<circ> remdups) tied_records 7 30 10 =
     Inr ([(''c'', ''d'', 2,
            [(''recent_count'', IntV 5), (''historical_count'', IntV 1),
             (''growth_rate'', FloatV 2)]),
           (''a'', ''b'', 2,
            [(''recent_count'', IntV 2), (''historical_count'', IntV 0),
             (''growth_rate'', FloatV 2)])],
          [(''anchor_now'', TimeV (day 738885)),
           (''recent_count'', IntV 7),
           (''historical_count'', IntV 5),
           (''total_count'', IntV 12),
           (''recent_edges_count'', IntV 2),
           (''historical_edges_count'', IntV 2),
           (''mode'', StrV ''rising'')])"
proof -
  let ?w = "scan_windows (day 738878) (day 738848) (items_with_time tied_records)"
  have h1: "items_with_time tied_records \<noteq> []" by code_simp
  have h3: "5 \<le> length (recent_items ?w)" by code_simp
  have h4: "5 \<le> length (historical_items ?w)" by code_simp
  have srt: "sorted_rising_edges (rev \<circ> remdups) ?w =
      [(''c'', ''d'', 2,
            [(''recent_count'', IntV 5), (''historical_count'', IntV 1),
             (''growth_rate'', FloatV 2)]),
       (''a'', ''b'', 2,
            [(''recent_count'', IntV 2), (''historical_count'', IntV 0),
             (''growth_rate'', FloatV 2)])]" by code_simp
  have some: "sorted_rising_edges (rev \<circ> remdups) ?w \<noteq> []" unfolding srt by simp
  show ?thesis
    unfolding find_rising_edges_windows [OF h1 tied_records_bounds]
      analyse_rising [OF h3 h4 some] srt tied_records_stats
    by (simp add: slice_to_def)
qed

lemma recent_items_mem:
  assumes "(it, t) \<in> set (items_with_time items)" and "2 \<le> length (tags it)"
  shows "it \<in> set (recent_items (scan_windows rt ht (items_with_time items))) \<longleftrightarrow>
           utc_us rt \<le> utc_us t"
proof -
  have "it \<in> set (recent_items (scan_windows rt ht (items_with_time items))) \<longleftrightarrow>
          (\<exists>t'. (it, t') \<in> set (items_with_time items) \<and> time_ge t' rt)"
    using assms(2) by (force simp: scan_recent_items in_recent_def)
  also have "\<dots> \<longleftrightarrow> time_ge t rt"
    using assms(1) by (auto simp: items_with_time_mem)
  finally show ?thesis by (simp add: time_ge_def)
qed

lemma historical_items_mem:
  assumes "(it, t) \<in> set (items_with_time items)" and "2 \<le> length (tags it)"
  shows "it \<in> set (historical_items (scan_windows rt ht (items_with_time items))) \<longleftrightarrow>
           utc_us t < utc_us rt \<and> utc_us ht \<le> utc_us t"
proof -
  have "it \<in> set (historical_items (scan_windows rt ht (items_with_time items))) \<longleftrightarrow>
          (\<exists>t'. (it, t') \<in> set (items_with_time items) \<and> \<not> time_ge t' rt \<and> time_ge t' ht)"
    using assms(2) by (force simp: scan_historical_items in_historical_def)
  also have "\<dots> \<longleftrightarrow> \<not> time_ge t rt \<and> time_ge t ht"
    using assms(1) by (auto simp: items_with_time_mem)
  finally show ?thesis by (auto simp: time_ge_def)
qed

text \<open>
  C6. In rising mode, every returned entry \<open>(a, b, s, d)\<close> has the score
  \<open>s = (r - h) / (h + 1)\<close>, where \<open>r\<close> and \<open>h\<close> are the counts of the pair in the recent and in
  the historical window, with \<open>s > 0\<close> and \<open>r \<ge> 2\<close>, and its details hold \<open>r\<close>, \<open>h\<close> and \<open>s\<close>.
  A pair with \<open>r = 4\<close> and \<open>h = 1\<close> has the growth \<open>3/2\<close> and passes the filter; a pair with
  \<open>r = 1\<close> never does. Where the set of pairs is iterated faithfully, every pair that passes
  the filter is in the sorted list from which the first \<^verbatim>\<open>top_n\<close> entries are returned.
\<close>

theorem rising_entries_growth:
  "(window_bounds (map snd (items_with_time items)) recent_days historical_days =
      Inr (anchor_now, rt, ht) \<and>
    find_rising_edges set_iter items recent_days historical_days top_n = Inr (es, stats) \<and>
    map_of stats ''mode'' = Some (StrV ''rising'') \<and>
    (a, b, s, d) \<in> set es \<and>
    r = pair_count (map fst (filter (in_recent rt) (items_with_time items))) (a, b) \<and>
    h = pair_count (map fst (filter (in_historical rt ht) (items_with_time items))) (a, b)
    \<longrightarrow>
      s = (of_nat r - of_nat h) / (of_nat h + 1) \<and> 0 < s \<and> 2 \<le> r \<and>
      d = [(''recent_count'', IntV (int r)), (''historical_count'', IntV (int h)),
           (''growth_rate'', FloatV s)]) \<and>
   growth 4 1 = 3 / 2 \<and>
   (counter_get (recent_edges w) e = 4 \<and> counter_get (historical_edges w) e = 1 \<longrightarrow>
      rising_entry w e =
        [(fst e, snd e, 3 / 2,
          [(''recent_count'', IntV 4), (''historical_count'', IntV 1),
           (''growth_rate'', FloatV (3 / 2))])]) \<and>
   (counter_get (recent_edges w) e = 1 \<longrightarrow> rising_entry w e = []) \<and>
   (set_iter_ok set_iter \<and>
    0 < growth (counter_get (recent_edges w) e) (counter_get (historical_edges w) e) \<and>
    2 \<le> counter_get (recent_edges w) e \<longrightarrow>
      (fst e, snd e,
       growth (counter_get (recent_edges w) e) (counter_get (historical_edges w) e),
       [(''recent_count'', IntV (int (counter_get (recent_edges w) e))),
        (''historical_count'', IntV (int (counter_get (historical_edges w) e))),
        (''growth_rate'',
           FloatV (growth (counter_get (recent_edges w) e)
                     (counter_get (historical_edges w) e)))])
      \<in> set (sorted_rising_edges set_iter w))"
proof -
  have main: "s = (of_nat r - of_nat h) / (of_nat h + 1) \<and> 0 < s \<and> 2 \<le> r \<and>
      d = [(''recent_count'', IntV (int r)), (''historical_count'', IntV (int h)),
           (''growth_rate'', FloatV s)]"
    if wb: "window_bounds (map snd (items_with_time items)) recent_days historical_days =
      Inr (anchor_now, rt, ht)"
      and res: "find_rising_edges set_iter items recent_days historical_days top_n = Inr (es, stats)"
      and mode: "map_of stats ''mode'' = Some (StrV ''rising'')"
      and mem: "(a, b, s, d) \<in> set es"
      and r: "r = pair_count (map fst (filter (in_recent rt) (items_with_time items))) (a, b)"
      and h: "h = pair_count (map fst (filter (in_historical rt ht) (items_with_time items))) (a, b)"
  proof -
    let ?w = "scan_windows rt ht (items_with_time items)"
    have "es = slice_to top_n (sorted_rising_edges set_iter ?w)"
      using wb res mode by (rule rising_mode_result(1))
    then have "(a, b, s, d) \<in> set (unsorted_rising_edges set_iter ?w)"
      using mem set_slice_to [of top_n "sorted_rising_edges set_iter ?w"]
      by (auto simp: sorted_rising_edges_set)
    then obtain e' where e': "(a, b, s, d) \<in> set (rising_entry ?w e')"
      unfolding unsorted_rising_edges_mem by blast
    have e'_eq: "e' = (a, b)" using rising_entry_mem(1) [OF e'] by (cases e') simp
    have r': "counter_get (recent_edges ?w) (a, b) = r"
      and h': "counter_get (historical_edges ?w) (a, b) = h"
      by (simp_all add: r h scan_recent_edges_pair_count scan_historical_edges_pair_count)
    have "s = growth r h"
      and "d = [(''recent_count'', IntV (int r)), (''historical_count'', IntV (int h)),
           (''growth_rate'', FloatV (growth r h))]"
      using rising_entry_mem(1) [OF e'] unfolding e'_eq r' h' by simp_all
    moreover have "0 < growth r h" "2 \<le> r"
      using rising_entry_mem(2,3) [OF e'] unfolding e'_eq r' h' by simp_all
    ultimately show ?thesis by (simp add: growth_def)
  qed
  have g: "growth 4 1 = 3 / 2" by (simp add: growth_def)
  have q: "rising_entry w e =
        [(fst e, snd e, 3 / 2,
          [(''recent_count'', IntV 4), (''historical_count'', IntV 1),
           (''growth_rate'', FloatV (3 / 2))])]"
    if "counter_get (recent_edges w) e = 4 \<and> counter_get (historical_edges w) e = 1"
    using that g by (simp add: rising_entry_def Let_def)
  have once: "rising_entry w e = []" if "counter_get (recent_edges w) e = 1"
    using that by (simp add: rising_entry_def Let_def)
  have every: "(fst e, snd e,
       growth (counter_get (recent_edges w) e) (counter_get (historical_edges w) e),
       [(''recent_count'', IntV (int (counter_get (recent_edges w) e))),
        (''historical_count'', IntV (int (counter_get (historical_edges w) e))),
        (''growth_rate'',
           FloatV (growth (counter_get (recent_edges w) e)
                     (counter_get (historical_edges w) e)))])
      \<in> set (sorted_rising_edges set_iter w)"
    if ok: "set_iter_ok set_iter"
      and pos: "0 < growth (counter_get (recent_edges w) e) (counter_get (historical_edges w) e)"
      and two: "2 \<le> counter_get (recent_edges w) e"
  proof -
    have "e \<in> fst ` set (recent_edges w)"
      using two counter_get_absent [of e "recent_edges w"] by fastforce
    then have "e \<in> set (map fst (recent_edges w) @ map fst (historical_edges w))" by simp
    then have key: "e \<in> set (set_iter (map fst (recent_edges w) @ map fst (historical_edges w)))"
      using ok unfolding set_iter_ok_def by blast
    have "rising_entry w e \<noteq> []" using pos two by (simp add: rising_entry_def Let_def)
    then obtain x where x: "x \<in> set (rising_entry w e)" by (cases "rising_entry w e") auto
    then have "x \<in> set (sorted_rising_edges set_iter w)"
      using key unfolding sorted_rising_edges_set unsorted_rising_edges_mem by blast
    then show ?thesis using rising_entry_mem(1) [OF x] by simp
  qed
  show ?thesis using main g q once every by blast
qed

text \<open>
  C6, witness: on \<open>tied_records\<close> the result is in rising mode and holds the pair \<open>(c, d)\<close>
  with the counts 5 and 1 and the score \<open>(5 - 1) / (1 + 1) = 2\<close>.
\<close>

theorem rising_entries_growth_witness:
  "window_bounds (map snd (items_with_time tied_records)) 7 30 =
     Inr (day 738885, day 738878, day 738848) \<and>
   find_rising_edges remdups tied_records 7 30 10 =
     Inr ([(''a'', ''b'', 2,
            [(''recent_count'', IntV 2), (''historical_count'', IntV 0),
             (''growth_rate'', FloatV 2)]),
           (''c'', ''d'', 2,
            [(''recent_count'', IntV 5), (''historical_count'', IntV 1),
             (''growth_rate'', FloatV 2)])],
          [(''anchor_now'', TimeV (day 738885)),
           (''recent_count'', IntV 7),
           (''historical_count'', IntV 5),
           (''total_count'', IntV 12),
           (''recent_edges_count'', IntV 2),
           (''historical_edges_count'', IntV 2),
           (''mode'', StrV ''rising'')]) \<and>
   pair_count (map fst (filter (in_recent (day 738878)) (items_with_time tied_records)))
     (''c'', ''d'') = 5 \<and>
   pair_count (map fst (filter (in_historical (day 738878) (day 738848))
     (items_with_time tied_records))) (''c'', ''d'') = 1 \<and>
   (2 :: rat) = (of_nat 5 - of_nat 1) / (of_nat 1 + 1) \<and>
   (2 :: nat) \<le> 5 \<and>
   set_iter_ok remdups"
proof -
  let ?es = "[(''a'', ''b'', 2 :: rat,
            [(''recent_count'', IntV 2), (''historical_count'', IntV 0),
             (''growth_rate'', FloatV 2)]),
           (''c'', ''d'', 2,
            [(''recent_count'', IntV 5), (''historical_count'', IntV 1),
             (''growth_rate'', FloatV 2)])]"
  let ?stats = "[(''anchor_now'', TimeV (day 738885)),
           (''recent_count'', IntV 7),
           (''historical_count'', IntV 5),
           (''total_count'', IntV 12),
           (''recent_edges_count'', IntV 2),
           (''historical_edges_count'', IntV 2),
           (''mode'', StrV ''rising'')]"
  have mode: "map_of ?stats ''mode'' = Some (StrV ''rising'')" by simp
  have mem: "(''c'', ''d'', 2 :: rat,
            [(''recent_count'', IntV 5), (''historical_count'', IntV 1),
             (''growth_rate'', FloatV 2)]) \<in> set ?es" by simp
  have r: "5 = pair_count (map fst (filter (in_recent (day 738878))
      (items_with_time tied_records))) (''c'', ''d'')" by code_simp
  have h: "1 = pair_count (map fst (filter (in_historical (day 738878) (day 738848))
     (items_with_time tied_records))) (''c'', ''d'')" by code_simp
  have hyps: "window_bounds (map snd (items_with_time tied_records)) 7 30 =
      Inr (day 738885, day 738878, day 738848) \<and>
    find_rising_edges remdups tied_records 7 30 10 = Inr (?es, ?stats) \<and>
    map_of ?stats ''mode'' = Some (StrV ''rising'') \<and>
    (''c'', ''d'', 2 :: rat,
            [(''recent_count'', IntV 5), (''historical_count'', IntV 1),
             (''growth_rate'', FloatV 2)]) \<in> set ?es \<and>
    5 = pair_count (map fst (filter (in_recent (day 738878))
      (items_with_time tied_records))) (''c'', ''d'') \<and>
    1 = pair_count (map fst (filter (in_historical (day 738878) (day 738848))
     (items_with_time tied_records))) (''c'', ''d'')"
    by (intro conjI tied_records_bounds tied_records_remdups mode mem r h)
  have ok: "set_iter_ok remdups" by (simp add: set_iter_ok_def)
  note concl = mp [OF conjunct1 [OF rising_entries_growth] hyps]
  show ?thesis
    by (intro conjI tied_records_bounds tied_records_remdups r [symmetric] h [symmetric]
        conjunct1 [OF concl] conjunct1 [OF conjunct2 [OF conjunct2 [OF concl]]] ok)
qed

text \<open>
  C7 (as amended). In rising mode the returned list is sorted in descending order of the
  growth score: it is the slice \<^verbatim>\<open>[:top_n]\<close> of a list that a stable sort on the score alone
  produces, so entries of equal score stay in the order in which the set of pairs was
  iterated. Neither the recent weight nor the tag pair breaks a tie.
\<close>

theorem rising_edges_sorted_by_growth:
  assumes "window_bounds (map snd (items_with_time items)) recent_days historical_days =
      Inr (anchor_now, rt, ht)"
    and "find_rising_edges set_iter items recent_days historical_days top_n = Inr (es, stats)"
    and "map_of stats ''mode'' = Some (StrV ''rising'')"
  shows "sorted_wrt (\<lambda>x y. score y \<le> score x) es \<and>
    es = slice_to top_n (sorted_rising_edges set_iter (scan_windows rt ht (items_with_time items))) \<and>
    (\<forall>g. filter (\<lambda>x. score x = g)
            (sorted_rising_edges set_iter (scan_windows rt ht (items_with_time items))) =
          filter (\<lambda>x. score x = g)
            (unsorted_rising_edges set_iter (scan_windows rt ht (items_with_time items))))"
proof -
  let ?w = "scan_windows rt ht (items_with_time items)"
  have es: "es = slice_to top_n (sorted_rising_edges set_iter ?w)"
    using assms by (rule rising_mode_result(1))
  have "sorted_wrt (\<lambda>x y. score y \<le> score x) es"
    unfolding es using sorted_rising_edges_sorted by (rule sorted_wrt_slice_to)
  then show ?thesis using es sorted_rising_edges_stable by blast
qed

text \<open>C7, witness: the result on \<open>tied_records\<close> is in descending order of the score.\<close>

theorem rising_edges_sorted_by_growth_witness:
  "window_bounds (map snd (items_with_time tied_records)) 7 30 =
     Inr (day 738885, day 738878, day 738848) \<and>
   find_rising_edges (rev \<circ> remdups) tied_records 7 30 10 =
     Inr ([(''c'', ''d'', 2,
            [(''recent_count'', IntV 5), (''historical_count'', IntV 1),
             (''growth_rate'', FloatV 2)]),
           (''a'', ''b'', 2,
            [(''recent_count'', IntV 2), (''historical_count'', IntV 0),
             (''growth_rate'', FloatV 2)])],
          [(''anchor_now'', TimeV (day 738885)),
           (''recent_count'', IntV 7),
           (''historical_count'', IntV 5),
           (''total_count'', IntV 12),
           (''recent_edges_count'', IntV 2),
           (''historical_edges_count'', IntV 2),
           (''mode'', StrV ''rising'')]) \<and>
   sorted_wrt (\<lambda>x y. score y \<le> score x)
     [(''c'', ''d'', 2,
            [(''recent_count'', IntV 5), (''historical_count'', IntV 1),
             (''growth_rate'', FloatV 2)]),
           (''a'', ''b'', 2,
            [(''recent_count'', IntV 2), (''historical_count'', IntV 0),
             (''growth_rate'', FloatV 2)])]"
proof -
  let ?stats = "[(''anchor_now'', TimeV (day 738885)),
           (''recent_count'', IntV 7),
           (''historical_count'', IntV 5),
           (''total_count'', IntV 12),
           (''recent_edges_count'', IntV 2),
           (''historical_edges_count'', IntV 2),
           (''mode'', StrV ''rising'')]"
  have mode: "map_of ?stats ''mode'' = Some (StrV ''rising'')" by simp
  note concl = rising_edges_sorted_by_growth [OF tied_records_bounds tied_records_rev mode]
  show ?thesis
    by (intro conjI tied_records_bounds tied_records_rev conjunct1 [OF concl])
qed

text \<open>
  C7, counterexample: \<open>(a, b)\<close> and \<open>(c, d)\<close> tie at the growth 2 with the recent weights 2 and
  5. When the set yields \<open>(a, b)\<close> first, the result lists it first, against a tie-break by
  descending recent weight; when the set yields the pairs in the opposite order, the same
  records and parameters give the opposite result.
\<close>

theorem ties_follow_iteration_order:
  "find_rising_edges remdups tied_records 7 30 10 =
     Inr ([(''a'', ''b'', 2,
            [(''recent_count'', IntV 2), (''historical_count'', IntV 0),
             (''growth_rate'', FloatV 2)]),
           (''c'', ''d'', 2,
            [(''recent_count'', IntV 5), (''historical_count'', IntV 1),
             (''growth_rate'', FloatV 2)])],
          [(''anchor_now'', TimeV (day 738885)),
           (''recent_count'', IntV 7),
           (''historical_count'', IntV 5),
           (''total_count'', IntV 12),
           (''recent_edges_count'', IntV 2),
           (''historical_edges_count'', IntV 2),
           (''mode'', StrV ''rising'')]) \<and>
   find_rising_edges (rev \<circ> remdups) tied_records 7 30 10 =
     Inr ([(''c'', ''d'', 2,
            [(''recent_count'', IntV 5), (''historical_count'', IntV 1),
             (''growth_rate'', FloatV 2)]),
           (''a'', ''b'', 2,
            [(''recent_count'', IntV 2), (''historical_count'', IntV 0),
             (''growth_rate'', FloatV 2)])],
          [(''anchor_now'', TimeV (day 738885)),
           (''recent_count'', IntV 7),
           (''historical_count'', IntV 5),
           (''total_count'', IntV 12),
           (''recent_edges_count'', IntV 2),
           (''historical_edges_count'', IntV 2),
           (''mode'', StrV ''rising'')])"
  by (intro conjI tied_records_remdups tied_records_rev)

lemma recent_items_long:
  "it \<in> set (recent_items (scan_windows rt ht iwt)) \<Longrightarrow> 2 \<le> length (tags it)"
  by (auto simp: scan_recent_items)

lemma historical_items_long:
  "it \<in> set (historical_items (scan_windows rt ht iwt)) \<Longrightarrow> 2 \<le> length (tags it)"
  by (auto simp: scan_historical_items)

text \<open>
  C8 (as amended). A record with a parsed timestamp and at least two tags is counted in
  the recent window exactly when its time is at or after the anchor minus
  \<^verbatim>\<open>recent_days\<close>, and in the historical window exactly when its time is before that
  threshold and at or after the anchor minus \<^verbatim>\<open>recent_days + historical_days\<close>; exactly at
  the recent threshold it is recent and not historical. A record with fewer than two tags
  is in neither window, whatever its time. No record is in both windows; the anchor is
  one of the timestamps and none is later; and the two record counts of the statistics
  are the numbers of timestamped records with at least two tags in the respective range.
\<close>

theorem window_partition:
  assumes "window_bounds (map snd (items_with_time items)) recent_days historical_days =
      Inr (anchor_now, rt, ht)"
    and "(it, t) \<in> set (items_with_time items)"
  shows "(2 \<le> length (tags it) \<longrightarrow>
           (it \<in> set (recent_items (scan_windows rt ht (items_with_time items))) \<longleftrightarrow>
              utc_us anchor_now - recent_days * us_per_day \<le> utc_us t) \<and>
           (it \<in> set (historical_items (scan_windows rt ht (items_with_time items))) \<longleftrightarrow>
              utc_us t < utc_us anchor_now - recent_days * us_per_day \<and>
              utc_us anchor_now - (recent_days + historical_days) * us_per_day \<le> utc_us t) \<and>
           (utc_us t = utc_us anchor_now - recent_days * us_per_day \<longrightarrow>
              it \<in> set (recent_items (scan_windows rt ht (items_with_time items))) \<and>
              it \<notin> set (historical_items (scan_windows rt ht (items_with_time items))))) \<and>
         (length (tags it) < 2 \<longrightarrow>
            it \<notin> set (recent_items (scan_windows rt ht (items_with_time items))) \<and>
            it \<notin> set (historical_items (scan_windows rt ht (items_with_time items)))) \<and>
         \<not> (it \<in> set (recent_items (scan_windows rt ht (items_with_time items))) \<and>
            it \<in> set (historical_items (scan_windows rt ht (items_with_time items)))) \<and>
         anchor_now \<in> set (map snd (items_with_time items)) \<and>
         utc_us t \<le> utc_us anchor_now \<and>
         length (recent_items (scan_windows rt ht (items_with_time items))) =
           length (filter (\<lambda>p. 2 \<le> length (tags (fst p)) \<and>
                     utc_us anchor_now - recent_days * us_per_day \<le> utc_us (snd p))
                   (items_with_time items)) \<and>
         length (historical_items (scan_windows rt ht (items_with_time items))) =
           length (filter (\<lambda>p. 2 \<le> length (tags (fst p)) \<and>
                     utc_us (snd p) < utc_us anchor_now - recent_days * us_per_day \<and>
                     utc_us anchor_now - (recent_days + historical_days) * us_per_day
                       \<le> utc_us (snd p))
                   (items_with_time items))"
proof -
  let ?iwt = "items_with_time items"
  let ?w = "scan_windows rt ht ?iwt"
  have t: "t \<in> set (map snd ?iwt)" using assms(2) by force
  note wb = window_bounds_props [OF assms(1)]
  have rec: "it \<in> set (recent_items ?w) \<longleftrightarrow> utc_us anchor_now - recent_days * us_per_day \<le> utc_us t"
    if "2 \<le> length (tags it)"
    using recent_items_mem [OF assms(2) that, of rt ht] wb(3) by simp
  have his: "it \<in> set (historical_items ?w) \<longleftrightarrow>
            utc_us t < utc_us anchor_now - recent_days * us_per_day \<and>
            utc_us anchor_now - (recent_days + historical_days) * us_per_day \<le> utc_us t"
    if "2 \<le> length (tags it)"
    using historical_items_mem [OF assms(2) that, of rt ht] wb(3,4) by simp
  have short: "it \<notin> set (recent_items ?w) \<and> it \<notin> set (historical_items ?w)"
    if "length (tags it) < 2"
    using that recent_items_long [of it rt ht ?iwt] historical_items_long [of it rt ht ?iwt]
    by auto
  have excl: "\<not> (it \<in> set (recent_items ?w) \<and> it \<in> set (historical_items ?w))"
  proof (cases "2 \<le> length (tags it)")
    case True
    then show ?thesis using rec his by auto
  next
    case False
    then show ?thesis using short by auto
  qed
  have le: "utc_us t \<le> utc_us anchor_now" using wb(2) t by blast
  have nr: "length (recent_items ?w) =
           length (filter (\<lambda>p. 2 \<le> length (tags (fst p)) \<and>
                     utc_us anchor_now - recent_days * us_per_day \<le> utc_us (snd p)) ?iwt)"
    by (simp add: scan_recent_items in_recent_def time_ge_def wb(3))
  have nh: "length (historical_items ?w) =
           length (filter (\<lambda>p. 2 \<le> length (tags (fst p)) \<and>
                     utc_us (snd p) < utc_us anchor_now - recent_days * us_per_day \<and>
                     utc_us anchor_now - (recent_days + historical_days) * us_per_day
                       \<le> utc_us (snd p)) ?iwt)"
    by (simp add: scan_historical_items in_historical_def time_ge_def wb(3,4) not_le)
  show ?thesis using rec his short excl le wb(1) nr nh by auto
qed

text \<open>
  C8, witness: a record with two tags, timestamped exactly 7 days before the anchor, is
  in the recent and not in the historical window; a record with one tag at the same time
  is in neither.
\<close>

theorem window_partition_witness:
  "window_bounds (map snd (items_with_time threshold_records)) 7 30 =
     Inr (day 738885, day 738878, day 738848) \<and>
   (post (Some (day 738878)) [''b'', ''c''], day 738878) \<in> set (items_with_time threshold_records) \<and>
   2 \<le> length (tags (post (Some (day 738878)) [''b'', ''c''])) \<and>
   utc_us (day 738878) = utc_us (day 738885) - 7 * us_per_day \<and>
   post (Some (day 738878)) [''b'', ''c''] \<in>
     set (recent_items (scan_windows (day 738878) (day 738848) (items_with_time threshold_records))) \<and>
   post (Some (day 738878)) [''b'', ''c''] \<notin>
     set (historical_items (scan_windows (day 738878) (day 738848)
       (items_with_time threshold_records))) \<and>
   window_bounds (map snd (items_with_time boundary_records)) 7 30 =
     Inr (day 738885, day 738878, day 738848) \<and>
   (post (Some (day 738878)) [''a''], day 738878) \<in> set (items_with_time boundary_records) \<and>
   length (tags (post (Some (day 738878)) [''a''])) < 2 \<and>
   post (Some (day 738878)) [''a''] \<notin>
     set (recent_items (scan_windows (day 738878) (day 738848) (items_with_time boundary_records))) \<and>
   post (Some (day 738878)) [''a''] \<notin>
     set (historical_items (scan_windows (day 738878) (day 738848)
       (items_with_time boundary_records)))"
proof -
  have h1: "window_bounds (map snd (items_with_time threshold_records)) 7 30 =
     Inr (day 738885, day 738878, day 738848)" by code_simp
  have h2: "(post (Some (day 738878)) [''b'', ''c''], day 738878) \<in>
      set (items_with_time threshold_records)" by code_simp
  have h3: "2 \<le> length (tags (post (Some (day 738878)) [''b'', ''c'']))" by code_simp
  have h4: "utc_us (day 738878) = utc_us (day 738885) - 7 * us_per_day" by code_simp
  note concl = window_partition [OF h1 h2]
  note long = mp [OF conjunct1 [OF concl] h3]
  note at_threshold = mp [OF conjunct2 [OF conjunct2 [OF long]] h4]
  have k1: "window_bounds (map snd (items_with_time boundary_records)) 7 30 =
     Inr (day 738885, day 738878, day 738848)" by code_simp
  have k2: "(post (Some (day 738878)) [''a''], day 738878) \<in>
      set (items_with_time boundary_records)" by code_simp
  have k3: "length (tags (post (Some (day 738878)) [''a''])) < 2" by code_simp
  note concl' = window_partition [OF k1 k2]
  note short = mp [OF conjunct1 [OF conjunct2 [OF concl']] k3]
  show ?thesis
    by (intro conjI h1 h2 h3 h4 conjunct1 [OF at_threshold] conjunct2 [OF at_threshold]
        k1 k2 k3 conjunct1 [OF short] conjunct2 [OF short])
qed

text \<open>
  C8, counterexample: a record with a single tag, timestamped exactly 7 days before the
  anchor, is skipped before the windows are compared: the recent window holds one record.
\<close>

theorem single_tag_record_in_no_window:
  "find_rising_edges remdups boundary_records 7 30 10 =
     Inr ([(''a'', ''b'', 0,
            [(''total_count'', IntV 1), (''fallback_reason'', StrV ''insufficient_window_samples'')])],
          [(''anchor_now'', TimeV (day 738885)),
           (''recent_count'', IntV 1),
           (''historical_count'', IntV 0),
           (''total_count'', IntV 2),
           (''recent_edges_count'', IntV 1),
           (''historical_edges_count'', IntV 0),
           (''mode'', StrV ''fallback'')]) \<and>
   window_bounds (map snd (items_with_time boundary_records)) 7 30 =
     Inr (day 738885, day 738878, day 738848) \<and>
   recent_items (scan_windows (day 738878) (day 738848) (items_with_time boundary_records)) =
     [post (Some (day 738885)) [''a'', ''b'']]"
  by code_simp

end
